theory Spec2Isabelle
  imports Main "HOL-Library.Sublist"
begin

section \<open>JavaScript strings\<close>

text \<open>
  A JavaScript string is modelled as a \<^typ>\<open>string\<close>: a list of code units, here the
  code units below 256. The character classes are those of the regular expressions and
  of \<^verbatim>\<open>String.prototype.trim\<close>, restricted to that range.
\<close>

definition is_space :: "char \<Rightarrow> bool" where
  \<comment> \<open>\<^verbatim>\<open>\s\<close>: tab, line feed, vertical tab, form feed, carriage return, space, no-break space\<close>
  "is_space c = (c \<in> set [CHR 0x09, CHR 0x0A, CHR 0x0B, CHR 0x0C, CHR 0x0D, CHR 0x20, CHR 0xA0])"

definition is_line_terminator :: "char \<Rightarrow> bool" where
  \<comment> \<open>the characters that \<^verbatim>\<open>.\<close> does not match\<close>
  "is_line_terminator c = (c = CHR 0x0A \<or> c = CHR 0x0D)"

definition is_digit :: "char \<Rightarrow> bool" where
  "is_digit c = (c \<in> set ''0123456789'')"

definition is_upper :: "char \<Rightarrow> bool" where
  "is_upper c = (c \<in> set ''ABCDEFGHIJKLMNOPQRSTUVWXYZ'')"

definition is_lower :: "char \<Rightarrow> bool" where
  "is_lower c = (c \<in> set ''abcdefghijklmnopqrstuvwxyz'')"

definition is_alpha :: "char \<Rightarrow> bool" where
  "is_alpha c = (is_upper c \<or> is_lower c)"

definition is_word :: "char \<Rightarrow> bool" where
  \<comment> \<open>\<^verbatim>\<open>\w\<close>\<close>
  "is_word c = (is_alpha c \<or> is_digit c \<or> c = CHR ''_'')"

definition lower_char :: "char \<Rightarrow> char" where
  \<comment> \<open>the ASCII letters, and the upper-case letters of Latin-1 (0xC0 to 0xDE but 0xD7)\<close>
  "lower_char c =
     (let n = (of_char c :: nat)
      in if (65 \<le> n \<and> n \<le> 90) \<or> (192 \<le> n \<and> n \<le> 222 \<and> n \<noteq> 215) then char_of (n + 32) else c)"

definition toLowerCase :: "string \<Rightarrow> string" where
  "toLowerCase s = map lower_char s"

definition trim :: "string \<Rightarrow> string" where
  "trim s = rev (dropWhile is_space (rev (dropWhile is_space s)))"

definition startsWith :: "string \<Rightarrow> string \<Rightarrow> bool" where
  "startsWith s p = prefix p s"

definition endsWith :: "string \<Rightarrow> string \<Rightarrow> bool" where
  "endsWith s p = suffix p s"

fun includes_str :: "string \<Rightarrow> string \<Rightarrow> bool" where
  "includes_str [] p = (p = [])"
| "includes_str (c # s) p = (prefix p (c # s) \<or> includes_str s p)"

fun join :: "string \<Rightarrow> string list \<Rightarrow> string" where
  "join sep [] = []"
| "join sep [x] = x"
| "join sep (x # y # xs) = x @ sep @ join sep (y # xs)"

fun split_on :: "char \<Rightarrow> string \<Rightarrow> string list" where
  \<comment> \<open>\<^verbatim>\<open>s.split(c)\<close> for a one-character separator: never the empty list\<close>
  "split_on d [] = [[]]"
| "split_on d (c # s) =
     (if c = d then [] # split_on d s
      else (case split_on d s of [] \<Rightarrow> [[c]] | l # ls \<Rightarrow> (c # l) # ls))"

definition truthy :: "string option \<Rightarrow> bool" where
  \<comment> \<open>a value that is a string or undefined, read as a condition\<close>
  "truthy v = (case v of None \<Rightarrow> False | Some s \<Rightarrow> s \<noteq> [])"

definition interpolate :: "string option \<Rightarrow> string" where
  \<comment> \<open>a value that is a string or undefined, inside a template literal\<close>
  "interpolate v = (case v of None \<Rightarrow> ''undefined'' | Some s \<Rightarrow> s)"

section \<open>Findings, modes and documents\<close>

datatype MODES = NORMAL | FORGIVE_CHECKLIST | SUBMISSION

datatype finding_class = ValidationError | ValidationWarning | ValidationComment

text \<open>
  Modelled from the spec: the classes ValidationError, ValidationWarning and
  ValidationComment of helpers/error.mjs, which is not among the sources. A finding is
  built from a code, a message and options, and the command line reads its
  \<^verbatim>\<open>name\<close>, \<^verbatim>\<open>message\<close>, \<^verbatim>\<open>refUrl\<close> and \<^verbatim>\<open>lines\<close>.
\<close>

record finding =
  cls :: finding_class
  name :: string
  message :: string
  refUrl :: "string option"
  lines :: "(nat \<times> nat) list option"

definition new_finding :: "finding_class \<Rightarrow> string \<Rightarrow> string \<Rightarrow> string \<Rightarrow> finding" where
  "new_finding k n m r = \<lparr>cls = k, name = n, message = m, refUrl = Some r, lines = None\<rparr>"

datatype exn = TypeError | TXT_PARSING_FAILED nat | XML_PARSING_FAILED string

record rfc_reference =
  ref_value :: string
  ref_subsection :: "string option"

record extractedElements =
  nonReferenceSectionRfc :: "string list"
  referenceSectionRfc :: "rfc_reference list"
  nonReferenceSectionDraftReferences :: "string list"
  referenceSectionDraftReferences :: "rfc_reference list"

text \<open>
  The part of a parsed XML tree that the reference validators read: the value at
  \<^verbatim>\<open>data.rfc.back.references.references\<close>. \<^term>\<open>None\<close> stands for a path that
  does not lead to an array (reading it throws a TypeError); a section whose
  \<^verbatim>\<open>reference\<close> is missing or not an array has \<^term>\<open>None\<close> there.
\<close>

record xml_reference =
  anchor :: "string option"

record xml_references_section =
  reference :: "xml_reference list option"

section \<open>The command line: output of the results\<close>

record nit =
  code :: string
  desc :: string
  ref :: "string option"
  line :: "(nat \<times> nat) list option"

record file_info =
  path :: string
  size :: nat

record json_output =
  result :: string
  file_of :: file_info
  nits :: "nit list"

datatype output_format = count | json | pretty

datatype console = Count nat | Json json_output | PrettyPass | PrettyFail "finding list"

definition nit_of :: "finding \<Rightarrow> nit" where
  "nit_of r = \<lparr>code = name r, desc = message r,
     ref = (if truthy (refUrl r) then refUrl r else None), line = lines r\<rparr>"

definition json_case :: "string \<Rightarrow> finding list \<Rightarrow> json_output" where
  "json_case docPath res =
     \<lparr>result = (if length res > 0 then ''fail'' else ''pass''),
      file_of = \<lparr>path = docPath, size = 0\<rparr>,
      nits = map nit_of res\<rparr>"

text \<open>
  The validation part of the command line. \<^verbatim>\<open>checkNits\<close> (lib/index.mjs) is not
  among the sources: its outcome is a parameter, \<^term>\<open>Inl\<close> the message of what it
  threw, \<^term>\<open>Inr\<close> the list of findings. The result is what is printed, or the message
  printed before \<^verbatim>\<open>process.exit(1)\<close>.
\<close>

definition cli_output :: "output_format \<Rightarrow> string \<Rightarrow> string + finding list \<Rightarrow> string + console" where
  "cli_output fmt docPath checked =
     (case checked of
        Inl msg \<Rightarrow> Inl (''Validation failed:\<newline>- '' @ msg)
      | Inr res \<Rightarrow>
          (case fmt of
             count \<Rightarrow> Inr (Count (length res))
           | json \<Rightarrow> Inr (Json (json_case docPath res))
           | pretty \<Rightarrow> Inr (if length res = 0 then PrettyPass else PrettyFail res)))"

section \<open>The reference validators\<close>

text \<open>
  The remote lookups are made by functions that are not among the sources
  (helpers/remote.mjs, remote/downref.mjs, config/rfc-status-hierarchy.mjs); they are
  parameters of the validators. A lookup answers with nothing (\<^term>\<open>None\<close>: null or
  undefined) or with a JSON object, of which the validators read the fields below; a
  field that the object does not have is \<^term>\<open>None\<close>. The validators await each lookup
  in turn, so the model calls them in the same order.
\<close>

record rfc_info =
  status :: "string option"
  obsoleted_by :: "string list option"
  rfc :: "string option"

record draft_info =
  state :: "string option"

record remote =
  fetchRemoteRfcInfo :: "string \<Rightarrow> rfc_info option"
  fetchRemoteDocInfoJson :: "string \<Rightarrow> draft_info option"
  checkReferencesInDownrefs :: "string list \<Rightarrow> string list"
  getStatusWeight :: "string \<Rightarrow> nat option"

text \<open>
  What the validators read of a document: its \<^verbatim>\<open>type\<close>, and for a text document
  \<^verbatim>\<open>data.extractedElements\<close>, for an XML document the reference sections.
\<close>

datatype document =
  TXT extractedElements
| XML "xml_references_section list option"

definition strip_brackets :: "string \<Rightarrow> string" where
  \<comment> \<open>\<^verbatim>\<open>ref.replace(/^\[|\]$/g, '')\<close>\<close>
  "strip_brackets s =
     (let s1 = (if startsWith s ''['' then tl s else s)
      in if endsWith s1 '']'' then butlast s1 else s1)"

definition strip_version :: "string \<Rightarrow> string" where
  \<comment> \<open>\<^verbatim>\<open>ref.replace(/-\d{2}$/, '')\<close>\<close>
  "strip_version s =
     (let n = length s
      in if 3 \<le> n \<and> s ! (n - 3) = CHR ''-'' \<and> is_digit (s ! (n - 2)) \<and> is_digit (s ! (n - 1))
         then take (n - 3) s else s)"

definition normalizeDraftReferences :: "string list \<Rightarrow> string list" where
  "normalizeDraftReferences refs =
     filter (\<lambda>r. includes_str (toLowerCase r) ''draft'') (map (\<lambda>r. strip_version (strip_brackets r)) refs)"

definition is_rfc_anchor :: "string \<Rightarrow> bool" where
  \<comment> \<open>\<^verbatim>\<open>/^RFC\d+$/i.test(ref)\<close>\<close>
  "is_rfc_anchor r = (toLowerCase (take 3 r) = ''rfc'' \<and> drop 3 r \<noteq> [] \<and> list_all is_digit (drop 3 r))"

definition first_digits :: "string \<Rightarrow> string" where
  \<comment> \<open>\<^verbatim>\<open>ref.match(/\d+/)[0]\<close>, for a string that has a digit\<close>
  "first_digits r = takeWhile is_digit (dropWhile (\<lambda>c. \<not> is_digit c) r)"

definition normalizeXmlReferences :: "string list \<Rightarrow> string list" where
  "normalizeXmlReferences refs =
     concat (map (\<lambda>r.
       if is_rfc_anchor r then [''RFC '' @ first_digits r]
       else if includes_str (toLowerCase r) ''draft'' then [strip_version (strip_brackets (trim r))]
       else []) refs)"

definition extractDefinedReferences :: "xml_references_section list \<Rightarrow> string list" where
  "extractDefinedReferences referencesSections =
     concat (map (\<lambda>sec.
       case reference sec of
         None \<Rightarrow> []
       | Some refs \<Rightarrow> concat (map (\<lambda>r. if truthy (anchor r) then [the (anchor r)] else []) refs))
       referencesSections)"

definition downref_findings :: "MODES \<Rightarrow> string list \<Rightarrow> finding list" where
  "downref_findings mode downrefMatches =
     concat (map (\<lambda>m.
       case mode of
         NORMAL \<Rightarrow> [new_finding ValidationError ''DOWNREF_DRAFT''
             (''Draft '' @ m @ '' is listed in the Downref Registry.'') (''https://datatracker.ietf.org/doc/'' @ m)]
       | FORGIVE_CHECKLIST \<Rightarrow> [new_finding ValidationWarning ''DOWNREF_DRAFT''
             (''Draft '' @ m @ '' is listed in the Downref Registry.'') (''https://datatracker.ietf.org/doc/'' @ m)]
       | SUBMISSION \<Rightarrow> []) downrefMatches)"

definition validateDownrefs :: "remote \<Rightarrow> document \<Rightarrow> MODES \<Rightarrow> exn + finding list" where
  "validateDownrefs env doc mode =
     (if mode = SUBMISSION then Inr []
      else case doc of
        TXT el \<Rightarrow>
          (let rfcs = map (\<lambda>r. ''RFC '' @ ref_value r) (referenceSectionRfc el);
               drafts = normalizeDraftReferences (map ref_value (referenceSectionDraftReferences el))
           in Inr (downref_findings mode (checkReferencesInDownrefs env (rfcs @ drafts))))
      | XML None \<Rightarrow> Inl TypeError
      | XML (Some referencesSections) \<Rightarrow>
          Inr (downref_findings mode
            (checkReferencesInDownrefs env (normalizeXmlReferences (extractDefinedReferences referencesSections)))))"

definition no_status :: "rfc_info option \<Rightarrow> bool" where
  \<comment> \<open>\<^verbatim>\<open>!rfcInfo || !rfcInfo.status\<close>\<close>
  "no_status info = (case info of None \<Rightarrow> True | Some i \<Rightarrow> \<not> truthy (status i))"

definition obsolete_finding :: "MODES \<Rightarrow> string \<Rightarrow> string \<Rightarrow> rfc_info \<Rightarrow> string list \<Rightarrow> finding list" where
  \<comment> \<open>the branch on the mode that the three validators share, with its code and the start of its message\<close>
  "obsolete_finding mode cd who info obs =
     (let message = who @ '' is obsolete and has been replaced by: '' @ join '', '' obs @ ''.'';
          url = ''https://www.rfc-editor.org/info/rfc'' @ interpolate (rfc info)
      in case mode of
           NORMAL \<Rightarrow> [new_finding ValidationError cd message url]
         | FORGIVE_CHECKLIST \<Rightarrow> [new_finding ValidationWarning cd message url]
         | SUBMISSION \<Rightarrow> [])"

definition undefined_status_normative :: "string \<Rightarrow> finding" where
  "undefined_status_normative rfcNum =
     new_finding ValidationComment ''UNDEFINED_STATUS''
       (''RFC '' @ rfcNum @ '' does not have a defined status or could not be fetched.'')
       (''https://www.rfc-editor.org/info/rfc'' @ rfcNum)"

fun normative_loop :: "remote \<Rightarrow> MODES \<Rightarrow> string list \<Rightarrow> finding list \<Rightarrow> exn + finding list" where
  "normative_loop env mode [] res = Inr res"
| "normative_loop env mode (rfcNum # rest) res =
     (let rfcInfo = fetchRemoteRfcInfo env rfcNum
      in if no_status rfcInfo then normative_loop env mode rest (res @ [undefined_status_normative rfcNum])
         else
           (let info = the rfcInfo;
                res1 = (if getStatusWeight env (the (status info)) = None
                        then res @ [new_finding ValidationComment ''UNKNOWN_STATUS''
                               (''RFC '' @ rfcNum @ '' has an unrecognized status: \"'' @ the (status info) @ ''\".'')
                               (''https://www.rfc-editor.org/info/rfc'' @ rfcNum)]
                        else res)
            in case obsoleted_by info of
                 None \<Rightarrow> Inl TypeError
               | Some obs \<Rightarrow>
                   if length obs > 0
                   then normative_loop env mode rest
                          (res1 @ obsolete_finding mode ''OBSOLETE_DOCUMENT'' (''The referenced document RFC '' @ rfcNum) info obs)
                   else normative_loop env mode rest res1))"

definition is_rfc_number :: "string \<Rightarrow> bool" where
  \<comment> \<open>\<^verbatim>\<open>/^\d+$/\<close>\<close>
  "is_rfc_number s = (s \<noteq> [] \<and> list_all is_digit s)"

definition normative_txt_references :: "extractedElements \<Rightarrow> string list" where
  "normative_txt_references el =
     map ref_value (filter (\<lambda>r. ref_subsection r = Some ''normative_references'' \<and> is_rfc_number (ref_value r))
       (referenceSectionRfc el))"

definition digits_of :: "string \<Rightarrow> exn + string" where
  \<comment> \<open>\<^verbatim>\<open>ref.match(/\d+/)[0]\<close>: reading the match of a string without a digit throws\<close>
  "digits_of r = (if list_ex is_digit r then Inr (first_digits r) else Inl TypeError)"

fun map_throwing :: "('a \<Rightarrow> exn + 'b) \<Rightarrow> 'a list \<Rightarrow> exn + 'b list" where
  "map_throwing f [] = Inr []"
| "map_throwing f (x # xs) =
     (case f x of
        Inl e \<Rightarrow> Inl e
      | Inr y \<Rightarrow> (case map_throwing f xs of Inl e \<Rightarrow> Inl e | Inr ys \<Rightarrow> Inr (y # ys)))"

definition normative_xml_references :: "xml_references_section list \<Rightarrow> exn + string list" where
  "normative_xml_references referencesSections =
     map_throwing digits_of (filter (\<lambda>r. startsWith r ''RFC'')
       (normalizeXmlReferences (extractDefinedReferences referencesSections)))"

definition validateNormativeReferences :: "remote \<Rightarrow> document \<Rightarrow> MODES \<Rightarrow> exn + finding list" where
  "validateNormativeReferences env doc mode =
     (if mode = SUBMISSION then Inr []
      else case doc of
        TXT el \<Rightarrow> normative_loop env mode (normative_txt_references el) []
      | XML None \<Rightarrow> Inl TypeError
      | XML (Some referencesSections) \<Rightarrow>
          (case normative_xml_references referencesSections of
             Inl e \<Rightarrow> Inl e
           | Inr refs \<Rightarrow> normative_loop env mode refs []))"

text \<open>
  The validators of the unclassified and of the informative references are the same loop
  but for the code of the finding and the words that name the reference. Both read
  \<^verbatim>\<open>doc.data.extractedElements\<close> whatever the type of the document; the tree of an
  XML document has no such member, so reading its \<^verbatim>\<open>referenceSectionRfc\<close> throws.
\<close>

definition undefined_status_other :: "string \<Rightarrow> string \<Rightarrow> finding" where
  "undefined_status_other who r =
     new_finding ValidationComment ''UNDEFINED_STATUS''
       (who @ r @ '' does not have a defined status or could not be fetched.'')
       (''https://www.rfc-editor.org/info/rfc'' @ r)"

fun reference_loop :: "remote \<Rightarrow> MODES \<Rightarrow> string \<Rightarrow> string \<Rightarrow> string list \<Rightarrow> finding list \<Rightarrow> exn + finding list" where
  "reference_loop env mode cd who [] res = Inr res"
| "reference_loop env mode cd who (r # rest) res =
     (let rfcInfo = fetchRemoteRfcInfo env r
      in if no_status rfcInfo then reference_loop env mode cd who rest (res @ [undefined_status_other who r])
         else
           (let info = the rfcInfo
            in case obsoleted_by info of
                 None \<Rightarrow> Inl TypeError
               | Some obs \<Rightarrow>
                   if length obs > 0
                   then reference_loop env mode cd who rest (res @ obsolete_finding mode cd (who @ r) info obs)
                   else reference_loop env mode cd who rest res))"

definition references_of_subsection :: "string \<Rightarrow> extractedElements \<Rightarrow> string list" where
  "references_of_subsection sub el =
     map ref_value (filter (\<lambda>r. ref_subsection r = Some sub) (referenceSectionRfc el))"

definition validateUnclassifiedReferences :: "remote \<Rightarrow> document \<Rightarrow> MODES \<Rightarrow> exn + finding list" where
  "validateUnclassifiedReferences env doc mode =
     (if mode = SUBMISSION then Inr []
      else case doc of
        TXT el \<Rightarrow> reference_loop env mode ''OBSOLETE_UNCLASSIFIED_REFERENCE'' ''The unclassified reference ''
                   (references_of_subsection ''unclassified_references'' el) []
      | XML _ \<Rightarrow> Inl TypeError)"

definition validateInformativeReferences :: "remote \<Rightarrow> document \<Rightarrow> MODES \<Rightarrow> exn + finding list" where
  "validateInformativeReferences env doc mode =
     (if mode = SUBMISSION then Inr []
      else case doc of
        TXT el \<Rightarrow> reference_loop env mode ''OBSOLETE_INFORMATIVE_REFERENCE'' ''The informative reference RFC ''
                   (references_of_subsection ''informative_references'' el) []
      | XML _ \<Rightarrow> Inl TypeError)"

definition draft_findings :: "remote \<Rightarrow> string list \<Rightarrow> finding list" where
  "draft_findings env drafts =
     concat (map (\<lambda>d.
       case fetchRemoteDocInfoJson env d of
         None \<Rightarrow> [new_finding ValidationWarning ''UNDEFINED_STATE''
             (''The draft reference '' @ d @ '' does not have a defined state or could not be fetched.'')
             (''https://datatracker.ietf.org/doc/'' @ d)]
       | Some draftInfo \<Rightarrow>
           if \<not> truthy (state draftInfo)
           then [new_finding ValidationWarning ''UNDEFINED_STATE''
             (''The draft reference '' @ d @ '' does not have a defined state or could not be fetched.'')
             (''https://datatracker.ietf.org/doc/'' @ d)]
           else if toLowerCase (the (state draftInfo)) = ''rfc''
           then [new_finding ValidationWarning ''INVALID_STATE_FOR_DRAFT''
             (''The draft reference '' @ d @ '' is already published as an RFC and should not be referenced as a draft.'')
             (''https://datatracker.ietf.org/doc/'' @ d)]
           else []) drafts)"

definition vlidateDraftReferences :: "remote \<Rightarrow> document \<Rightarrow> MODES \<Rightarrow> exn + finding list" where
  "vlidateDraftReferences env doc mode =
     (if mode = SUBMISSION then Inr []
      else case doc of
        TXT el \<Rightarrow>
          Inr (draft_findings env (normalizeDraftReferences (map ref_value (referenceSectionDraftReferences el))))
      | XML None \<Rightarrow> Inl TypeError
      | XML (Some referencesSections) \<Rightarrow>
          Inr (draft_findings env (filter (\<lambda>r. startsWith r ''draft-'')
            (normalizeXmlReferences (extractDefinedReferences referencesSections)))))"

section \<open>The XML adapter\<close>

text \<open>
  The adapter removes the declarations of external entities from the raw text with
  \<^verbatim>\<open>replaceAll\<close> and the regular expression
  \<^verbatim>\<open>/<!ENTITY\s+([a-zA-Z0-9-._]+)\s+(SYSTEM|PUBLIC)\s+"(.*)">/g\<close>, records each match,
  and hands the rest to the XML parser of fast-xml-parser, which is a parameter here:
  it answers \<^term>\<open>Inl\<close> with the message of what it throws, or \<^term>\<open>Inr\<close> with the tree.
\<close>

record external_entity =
  original :: string
  entity_name :: string
  entity_type :: string
  url :: string






lemma startsWith_split: "startsWith s p \<Longrightarrow> s = p @ drop (length p) s"
  by (auto simp: startsWith_def prefix_def)









section \<open>The text parser: patterns\<close>

text \<open>
  Each regular expression of the parser is a function on strings that answers what the
  expression answers, greedy groups and backtracking included. The patterns are applied
  to single lines, which hold no line feed.
\<close>

definition has_line_terminator :: "string \<Rightarrow> bool" where
  "has_line_terminator s = list_ex is_line_terminator s"

definition line_values_at :: "nat \<Rightarrow> string \<Rightarrow> (string \<times> string) option" where
  \<comment> \<open>the match whose left group has \<^term>\<open>i\<close> characters: the white space after it is taken whole\<close>
  "line_values_at i s =
     (let l = take i s; rest = drop i s; k = length (takeWhile is_space rest); r = drop k rest
      in if 2 \<le> k \<and> \<not> has_line_terminator l \<and> \<not> has_line_terminator r then Some (l, r) else None)"

fun line_values_from :: "nat \<Rightarrow> string \<Rightarrow> (string \<times> string) option" where
  "line_values_from 0 s = line_values_at 0 s"
| "line_values_from (Suc i) s =
     (case line_values_at (Suc i) s of Some v \<Rightarrow> Some v | None \<Rightarrow> line_values_from i s)"

definition LINE_VALUES_EXTRACT_RE :: "string \<Rightarrow> (string \<times> string) option" where
  \<comment> \<open>\<^verbatim>\<open>/^(?<left>.*)\s{2,}(?<right>.*)$/\<close>: the left group is greedy, so the longest left wins\<close>
  "LINE_VALUES_EXTRACT_RE s = line_values_from (length s) s"

definition AUTHOR_NAME_RE :: "string \<Rightarrow> bool" where
  \<comment> \<open>\<^verbatim>\<open>/^[a-z]\.\s[a-z]+$/i\<close>\<close>
  "AUTHOR_NAME_RE s =
     (case s of
        c1 # c2 # c3 # rest \<Rightarrow> is_alpha c1 \<and> c2 = CHR ''.'' \<and> is_space c3 \<and> rest \<noteq> [] \<and> list_all is_alpha rest
      | _ \<Rightarrow> False)"

definition DATE_RE :: "string \<Rightarrow> (string option \<times> string \<times> string) option" where
  \<comment> \<open>\<^verbatim>\<open>/^(?:(?<day>[0-9]{1,2})\s)?(?<month>[a-z]{3,})\s(?<year>[0-9]{4})$/i\<close>: day, month, year\<close>
  "DATE_RE s =
     (let d = takeWhile is_digit s;
          after_day =
            (if d = [] then Some (None, s)
             else if length d \<le> 2 \<and> list_ex is_space (take 1 (drop (length d) s))
             then Some (Some d, drop (length d + 1) s)
             else None)
      in case after_day of
           None \<Rightarrow> None
         | Some (dy, r) \<Rightarrow>
             (let m = takeWhile is_alpha r; r1 = dropWhile is_alpha r; y = drop 1 r1
              in if 3 \<le> length m \<and> list_ex is_space (take 1 r1) \<and> length y = 4 \<and> list_all is_digit y
                 then Some (dy, m, y) else None))"

definition parseInt :: "string \<Rightarrow> nat" where
  \<comment> \<open>for a string of decimal digits\<close>
  "parseInt s = foldl (\<lambda>n c. 10 * n + (of_char c - 48)) 0 s"

definition strip_number :: "string \<Rightarrow> string option" where
  \<comment> \<open>\<^verbatim>\<open>\d+\.\<close> at the start: what follows it\<close>
  "strip_number s =
     (let r = dropWhile is_digit s
      in if takeWhile is_digit s \<noteq> [] \<and> startsWith r ''.'' then Some (tl r) else None)"

definition heading_text :: "string \<Rightarrow> bool" where
  \<comment> \<open>\<^verbatim>\<open>\s+.+$\<close>: white space, then at least one character, none of them a line terminator\<close>
  "heading_text s =
     (let k = length (takeWhile is_space s)
      in list_ex (\<lambda>j. drop j s \<noteq> [] \<and> \<not> has_line_terminator (drop j s)) [1..<Suc k])"

definition title_after_spaces :: "string \<Rightarrow> string option" where
  \<comment> \<open>\<^verbatim>\<open>\s+\<close> before a title that starts with a letter: the title, in lower case\<close>
  "title_after_spaces s =
     (if takeWhile is_space s = [] then None else Some (toLowerCase (dropWhile is_space s)))"

definition SECTION_PATTERN :: "string \<Rightarrow> bool" where
  \<comment> \<open>\<^verbatim>\<open>/^\d+\.\s+.+$/\<close>\<close>
  "SECTION_PATTERN s = (case strip_number s of None \<Rightarrow> False | Some r \<Rightarrow> heading_text r)"

definition section_title :: "string \<Rightarrow> string option" where
  \<comment> \<open>the title of \<^verbatim>\<open>^\d+\.\s+Title$\<close>, in lower case\<close>
  "section_title s = (case strip_number s of None \<Rightarrow> None | Some r \<Rightarrow> title_after_spaces r)"

definition subsection_title :: "string \<Rightarrow> string option" where
  \<comment> \<open>the title of \<^verbatim>\<open>^\d+\.\d+\.\s+Title$\<close>, in lower case\<close>
  "subsection_title s =
     (case strip_number s of
        None \<Rightarrow> None
      | Some r \<Rightarrow> (case strip_number r of None \<Rightarrow> None | Some r1 \<Rightarrow> title_after_spaces r1))"

definition subsection_match :: "string \<Rightarrow> bool" where
  \<comment> \<open>a match of \<^verbatim>\<open>/^\d+\.\d+\.\s+(.+)$/\<close> at the start of the string\<close>
  "subsection_match s =
     (case strip_number s of
        None \<Rightarrow> False
      | Some r \<Rightarrow> (case strip_number r of None \<Rightarrow> False | Some r1 \<Rightarrow> heading_text r1))"

definition TOC_PATTERN :: "string \<Rightarrow> bool" where
  \<comment> \<open>\<^verbatim>\<open>/\.+\s*\d+$/\<close>\<close>
  "TOC_PATTERN s =
     (let r = rev s; r1 = dropWhile is_space (dropWhile is_digit r)
      in takeWhile is_digit r \<noteq> [] \<and> startsWith r1 ''.'')"

definition is_quote :: "char \<Rightarrow> bool" where
  \<comment> \<open>the quotation marks of the author patterns that are code units below 256\<close>
  "is_quote c = (c = CHR 0x27 \<or> c = CHR 0x60 \<or> c = CHR 0x22)"

definition numbering_prefix :: "string \<Rightarrow> bool" where
  \<comment> \<open>\<^verbatim>\<open>^[0-9a-z.]*\s*\<close> on a string in lower case that the pattern then ends\<close>
  "numbering_prefix x = list_all is_space (dropWhile (\<lambda>c. is_digit c \<or> is_lower c \<or> c = CHR ''.'') x)"

definition ends_after_prefix :: "string \<Rightarrow> string \<Rightarrow> bool" where
  "ends_after_prefix s e = (endsWith s e \<and> numbering_prefix (take (length s - length e) s))"

definition AUTHORS_OR_EDITORS_ADDRESSES_RE :: "string \<Rightarrow> bool" where
  \<comment> \<open>\<^verbatim>\<open>^(Authors?|Editors?)['`"] Addresses$\<close> on a string in lower case\<close>
  "AUTHORS_OR_EDITORS_ADDRESSES_RE s =
     list_ex (\<lambda>w. startsWith s w \<and>
        (case drop (length w) s of [] \<Rightarrow> False | q # r \<Rightarrow> is_quote q \<and> r = '' addresses''))
       [''authors'', ''author'', ''editors'', ''editor'']"

definition AUTHOR_CONTACT_INFORMATION_RE :: "string \<Rightarrow> bool" where
  \<comment> \<open>\<^verbatim>\<open>^[0-9a-z.]*\s*(author|editor)(?:['`"]s?|s)?\s+contact information$\<close> on a string in lower case\<close>
  "AUTHOR_CONTACT_INFORMATION_RE s =
     (endsWith s ''contact information'' \<and>
      (let y = take (length s - 19) s; z = rev (dropWhile is_space (rev y))
       in length z < length y \<and>
          list_ex (\<lambda>w. list_ex (\<lambda>opt. ends_after_prefix z (w @ opt))
                    ['''', [CHR 0x27], [CHR 0x60], [CHR 0x22], [CHR 0x27, CHR ''s''],
                     [CHR 0x60, CHR ''s''], [CHR 0x22, CHR ''s''], ''s''])
            [''author'', ''editor'']))"

definition AUTHOR_EDITORS_RE :: "string \<Rightarrow> bool" where
  \<comment> \<open>\<^verbatim>\<open>^[0-9a-z.]*\s*(author|editor)s?:?$\<close> on a string in lower case\<close>
  "AUTHOR_EDITORS_RE s =
     list_ex (\<lambda>e. ends_after_prefix s e)
       [''author'', ''authors'', ''author:'', ''authors:'', ''editor'', ''editors'', ''editor:'', ''editors:'']"

definition AUTHOR_SECTION_RE :: "string \<Rightarrow> bool" where
  "AUTHOR_SECTION_RE ln =
     (let s = toLowerCase ln
      in AUTHORS_OR_EDITORS_ADDRESSES_RE s
         \<or> ends_after_prefix s ''author information''
         \<or> AUTHOR_CONTACT_INFORMATION_RE s
         \<or> ends_after_prefix s ''contact information''
         \<or> AUTHOR_EDITORS_RE s)"

datatype section_name = abstract | introduction | securityConsiderations | authorAddress | references | ianaConsiderations

definition sectionMatchers :: "string \<Rightarrow> section_name option" where
  \<comment> \<open>\<^verbatim>\<open>sectionMatchers.find(({ regex }) => regex.test(trimmedLine))\<close>: the first matcher that matches\<close>
  "sectionMatchers s =
     (if section_title s \<in> {Some ''introduction'', Some ''overview'', Some ''background''} then Some introduction
      else if section_title s = Some ''security considerations'' then Some securityConsiderations
      else if AUTHOR_SECTION_RE s then Some authorAddress
      else if section_title s = Some ''references'' then Some references
      else if section_title s = Some ''iana considerations'' then Some ianaConsiderations
      else None)"

definition two_words :: "string \<Rightarrow> string \<Rightarrow> string \<Rightarrow> bool" where
  \<comment> \<open>\<^verbatim>\<open>First\s+Second$\<close> on a title in lower case\<close>
  "two_words w1 w2 t =
     (startsWith t w1 \<and>
      (let r = drop (length w1) t in takeWhile is_space r \<noteq> [] \<and> dropWhile is_space r = w2))"

lemma next_word_shorter:
  assumes "takeWhile P t \<noteq> []"
  shows "length (dropWhile Q (dropWhile P t)) < length t"
proof -
  have "length (takeWhile P t @ dropWhile P t) = length t" by simp
  then have "length (takeWhile P t) + length (dropWhile P t) = length t"
    unfolding length_append .
  with assms have "length (dropWhile P t) < length t"
    by (cases "takeWhile P t") auto
  moreover have "length (dropWhile Q (dropWhile P t)) \<le> length (dropWhile P t)"
    by (rule length_dropWhile_le)
  ultimately show ?thesis by simp
qed

function word_list_reference :: "string \<Rightarrow> bool" where
  \<comment> \<open>\<^verbatim>\<open>([a-zA-Z]+\s+)*Reference(s)?$\<close> on a title in lower case\<close>
  "word_list_reference t =
     (t = ''reference'' \<or> t = ''references'' \<or>
      (if takeWhile is_alpha t \<noteq> [] \<and> takeWhile is_space (dropWhile is_alpha t) \<noteq> []
       then word_list_reference (dropWhile is_space (dropWhile is_alpha t)) else False))"
  by pat_completeness auto
termination
  by (relation "measure length") (auto simp: next_word_shorter)

definition subsectionMatchers :: "string \<Rightarrow> string option" where
  \<comment> \<open>the name of the first subsection matcher that matches\<close>
  "subsectionMatchers s =
     (case subsection_title s of
        None \<Rightarrow> None
      | Some t \<Rightarrow>
          if two_words ''normative'' ''references'' t then Some ''normative_references''
          else if two_words ''informative'' ''references'' t then Some ''informative_references''
          else if word_list_reference t then Some ''unclassified_references''
          else None)"

text \<open>
  A global expression is run over a line from left to right. The matcher answers, for
  the character before a position and the text from it, what the match there captures
  and how long it is; after a match the scan goes on behind it. The loops over
  \<^verbatim>\<open>exec\<close> run until it answers null, which leaves \<^verbatim>\<open>lastIndex\<close> at 0.
\<close>

fun scan_matches :: "(char option \<Rightarrow> string \<Rightarrow> ('a \<times> nat) option) \<Rightarrow> nat \<Rightarrow> char option \<Rightarrow> string \<Rightarrow> 'a list" where
  "scan_matches m skip prev [] = []"
| "scan_matches m (Suc k) prev (c # cs) = scan_matches m k (Some c) cs"
| "scan_matches m 0 prev (c # cs) =
     (case m prev (c # cs) of
        Some (x, n) \<Rightarrow> x # scan_matches m (n - 1) (Some c) cs
      | None \<Rightarrow> scan_matches m 0 (Some c) cs)"

definition not_word_next :: "string \<Rightarrow> bool" where
  \<comment> \<open>\<^verbatim>\<open>\b\<close> after a digit: the end of the line, or a character that is not of a word\<close>
  "not_word_next s = (case s of [] \<Rightarrow> True | c # _ \<Rightarrow> \<not> is_word c)"

definition rfc_reference_at :: "char option \<Rightarrow> string \<Rightarrow> (string \<times> nat) option" where
  \<comment> \<open>\<^verbatim>\<open>/\bRFC\s?(\d+)\b|\[RFC(\d+)\]/gi\<close> at one position: the number, and the length of the match\<close>
  "rfc_reference_at prev s =
     (let boundary = (case prev of None \<Rightarrow> True | Some p \<Rightarrow> \<not> is_word p);
          r = drop 3 s;
          r1 = (if list_ex is_space (take 1 r) then drop 1 r else r);
          n1 = takeWhile is_digit r1;
          b = drop 4 s;
          n2 = takeWhile is_digit b
      in if boundary \<and> toLowerCase (take 3 s) = ''rfc'' \<and> n1 \<noteq> [] \<and> not_word_next (dropWhile is_digit r1)
         then Some (n1, 3 + (length r - length r1) + length n1)
         else if toLowerCase (take 4 s) = ''[rfc'' \<and> n2 \<noteq> [] \<and> startsWith (dropWhile is_digit b) '']''
         then Some (n2, 5 + length n2)
         else None)"

definition rfc_reference_matches :: "string \<Rightarrow> string list" where
  "rfc_reference_matches s = scan_matches rfc_reference_at 0 None s"

definition is_draft_char :: "char \<Rightarrow> bool" where
  \<comment> \<open>\<^verbatim>\<open>[a-zA-Z0-9-.]\<close>\<close>
  "is_draft_char c = (is_alpha c \<or> is_digit c \<or> c = CHR ''-'' \<or> c = CHR ''.'')"

definition draft_reference_at :: "char option \<Rightarrow> string \<Rightarrow> (string \<times> nat) option" where
  \<comment> \<open>\<^verbatim>\<open>/\[(?!RFC\d+)[a-zA-Z0-9-.]+\]/gi\<close> at one position: the text of the match, and its length\<close>
  "draft_reference_at prev s =
     (let r = drop 1 s; w = takeWhile is_draft_char r
      in if startsWith s ''['' \<and> \<not> (toLowerCase (take 3 r) = ''rfc'' \<and> list_ex is_digit (take 1 (drop 3 r)))
            \<and> w \<noteq> [] \<and> startsWith (dropWhile is_draft_char r) '']''
         then Some (''['' @ w @ '']'', length w + 2)
         else None)"

definition draft_reference_matches :: "string \<Rightarrow> string list" where
  "draft_reference_matches s = scan_matches draft_reference_at 0 None s"

definition includes_ci :: "string \<Rightarrow> string \<Rightarrow> bool" where
  \<comment> \<open>a test of a literal pattern with the flag i; the pattern is given in lower case\<close>
  "includes_ci s p = includes_str (toLowerCase s) p"

text \<open>
  Two expressions with the flag g are used with \<^verbatim>\<open>exec\<close> and \<^verbatim>\<open>test\<close> outside a loop:
  INLINE_CODE_FORMAT and SUBSECTION_PATTERN. Both are objects of the module, so their
  \<^verbatim>\<open>lastIndex\<close> lives on from one line to the next and from one call of the parser to
  the next. A call starts its search at \<^verbatim>\<open>lastIndex\<close>, sets it behind the match it
  finds, and to 0 when it finds none.
\<close>

record regexes =
  INLINE_CODE_FORMAT_lastIndex :: nat
  SUBSECTION_PATTERN_lastIndex :: nat

definition inline_code_at :: "nat \<Rightarrow> string \<Rightarrow> nat option" where
  \<comment> \<open>\<^verbatim>\<open>/\/\*|\*\/|^ *#/ig\<close> at one position: where the match ends\<close>
  "inline_code_at i s =
     (let r = drop i s
      in if startsWith r ''/*'' \<or> startsWith r ''*/'' then Some (i + 2)
         else if i = 0 \<and> startsWith (dropWhile (\<lambda>c. c = CHR '' '') s) ''#''
         then Some (length (takeWhile (\<lambda>c. c = CHR '' '') s) + 1)
         else None)"

fun inline_code_search :: "nat \<Rightarrow> nat \<Rightarrow> string \<Rightarrow> (nat \<times> nat) option" where
  \<comment> \<open>the first match at one of the next \<^term>\<open>n\<close> positions from \<^term>\<open>i\<close>: its index and its end\<close>
  "inline_code_search 0 i s = None"
| "inline_code_search (Suc n) i s =
     (case inline_code_at i s of Some e \<Rightarrow> Some (i, e) | None \<Rightarrow> inline_code_search n (Suc i) s)"

definition INLINE_CODE_FORMAT_exec :: "nat \<Rightarrow> string \<Rightarrow> nat option \<times> nat" where
  \<comment> \<open>the index of the match, if there is one, and the new \<^verbatim>\<open>lastIndex\<close>\<close>
  "INLINE_CODE_FORMAT_exec lastIndex s =
     (if lastIndex > length s then (None, 0)
      else case inline_code_search (Suc (length s) - lastIndex) lastIndex s of
             Some (i, e) \<Rightarrow> (Some i, e)
           | None \<Rightarrow> (None, 0))"

definition SUBSECTION_PATTERN_test :: "nat \<Rightarrow> string \<Rightarrow> bool \<times> nat" where
  \<comment> \<open>\<^verbatim>\<open>/^\d+\.\d+\.\s+(.+)$/ig\<close>: it can only match from index 0, and then to the end of the line\<close>
  "SUBSECTION_PATTERN_test lastIndex s =
     (if lastIndex = 0 \<and> subsection_match s then (True, length s) else (False, 0))"

section \<open>The text parser: the document and the scan\<close>

text \<open>
  The fields of the document that the scan below fills. Left out are the fields that
  are written and never read by the parser and take no part in its control flow: the
  counts and matches of key words, boilerplate, licence text, addresses and domain names
  (some of their patterns are in modules/fqdn.mjs and modules/ip.mjs, which are not among
  the sources), and of the header the intended status, the category and the expiry date,
  which go through config/rfc-status-hierarchy.mjs and a date library.
\<close>

record author =
  author_name :: string
  org :: "string option"

record header_date =
  day :: "nat option"
  month :: string
  year :: nat

record header =
  authors :: "author list"
  date :: "header_date option"
  source :: "string option"
  rfcNumber :: "string option"
  obsoletes :: "string list option"
  issn :: "string option"

record inline_issue =
  at_line :: nat
  at_pos :: nat

record txt_data =
  pageCount :: nat
  header :: header
  content :: "section_name \<Rightarrow> string list option"
  title :: "string option"
  slug :: "string option"
  extractedElements :: extractedElements
  inlineCode :: "inline_issue list"
  codeBlocks :: bool

record marker =
  start :: nat
  endLine :: nat
  closed :: bool

record header_marker = marker +
  lastAuthor :: nat

record all_markers =
  of_header :: header_marker
  of_title :: nat
  of_slug :: nat
  of_section :: "section_name \<Rightarrow> marker"

record TXTDocObject =
  kind :: "string option"
  body :: string
  parsed :: txt_data
  parsed_markers :: all_markers
  txt_filename :: string

text \<open>
  The state of one call of the parser: the data and the markers it builds, its local
  variables, and the two expressions of the module.
\<close>

record parser_state =
  data :: txt_data
  markers :: all_markers
  docKind :: "string option"
  lineIdx :: nat
  currentSection :: "section_name option"
  currentSubSection :: "string option"
  inCodeBlock :: bool
  regexes :: regexes

datatype flow = Thrown parser_state | Continue parser_state | Proceed parser_state

definition initial_state :: "regexes \<Rightarrow> parser_state" where
  "initial_state rs =
     \<lparr>data = \<lparr>pageCount = 1,
              header = \<lparr>authors = [], date = None, source = None, rfcNumber = None, obsoletes = None, issn = None\<rparr>,
              content = (\<lambda>_. None), title = None, slug = None,
              extractedElements = \<lparr>nonReferenceSectionRfc = [], referenceSectionRfc = [],
                nonReferenceSectionDraftReferences = [], referenceSectionDraftReferences = []\<rparr>,
              inlineCode = [], codeBlocks = False\<rparr>,
      markers = \<lparr>of_header = \<lparr>start = 0, endLine = 0, closed = False, lastAuthor = 0\<rparr>,
                 of_title = 0, of_slug = 0,
                 of_section = (\<lambda>_. \<lparr>start = 0, endLine = 0, closed = False\<rparr>)\<rparr>,
      docKind = None, lineIdx = 0, currentSection = None, currentSubSection = None,
      inCodeBlock = False, regexes = rs\<rparr>"

definition update_header :: "(header \<Rightarrow> header) \<Rightarrow> parser_state \<Rightarrow> parser_state" where
  "update_header f s = s\<lparr>data := (data s)\<lparr>header := f (header (data s))\<rparr>\<rparr>"

definition update_header_marker :: "(header_marker \<Rightarrow> header_marker) \<Rightarrow> parser_state \<Rightarrow> parser_state" where
  "update_header_marker f s = s\<lparr>markers := (markers s)\<lparr>of_header := f (of_header (markers s))\<rparr>\<rparr>"

definition update_marker :: "section_name \<Rightarrow> (marker \<Rightarrow> marker) \<Rightarrow> parser_state \<Rightarrow> parser_state" where
  "update_marker k f s =
     s\<lparr>markers := (markers s)\<lparr>of_section := (of_section (markers s))(k := f (of_section (markers s) k))\<rparr>\<rparr>"

definition set_content :: "section_name \<Rightarrow> string list option \<Rightarrow> parser_state \<Rightarrow> parser_state" where
  "set_content k v s = s\<lparr>data := (data s)\<lparr>content := (content (data s))(k := v)\<rparr>\<rparr>"

definition add_rfc_reference :: "section_name option \<Rightarrow> string option \<Rightarrow> extractedElements \<Rightarrow> string \<Rightarrow> extractedElements" where
  \<comment> \<open>the body of the loop over the matches of RFC_REFERENCE_RE\<close>
  "add_rfc_reference cur sub el rfcNum =
     (if cur \<noteq> Some references
      then (if rfcNum \<noteq> [] \<and> rfcNum \<notin> set (nonReferenceSectionRfc el)
            then el\<lparr>nonReferenceSectionRfc := nonReferenceSectionRfc el @ [rfcNum]\<rparr> else el)
      else (if rfcNum \<noteq> [] \<and> \<not> list_ex (\<lambda>e. ref_value e = rfcNum) (referenceSectionRfc el)
            then el\<lparr>referenceSectionRfc := referenceSectionRfc el
                      @ [\<lparr>ref_value = rfcNum, ref_subsection = sub\<rparr>]\<rparr>
            else el))"

definition add_draft_reference :: "section_name option \<Rightarrow> string option \<Rightarrow> extractedElements \<Rightarrow> string \<Rightarrow> extractedElements" where
  \<comment> \<open>the body of the loop over the matches of NON_RFC_REFERENCE_RE\<close>
  "add_draft_reference cur sub el draftName =
     (if cur \<noteq> Some references
      then (if draftName \<notin> set (nonReferenceSectionDraftReferences el)
            then el\<lparr>nonReferenceSectionDraftReferences := nonReferenceSectionDraftReferences el @ [draftName]\<rparr>
            else el)
      else (if \<not> list_ex (\<lambda>e. ref_value e = draftName) (referenceSectionDraftReferences el)
            then el\<lparr>referenceSectionDraftReferences := referenceSectionDraftReferences el
                      @ [\<lparr>ref_value = draftName, ref_subsection = sub\<rparr>]\<rparr>
            else el))"

definition extract_references :: "string \<Rightarrow> parser_state \<Rightarrow> parser_state" where
  "extract_references trimmedLine s =
     (let el1 = foldl (add_rfc_reference (currentSection s) (currentSubSection s))
                  (extractedElements (data s)) (rfc_reference_matches trimmedLine);
          el2 = foldl (add_draft_reference (currentSection s) (currentSubSection s))
                  el1 (draft_reference_matches trimmedLine)
      in s\<lparr>data := (data s)\<lparr>extractedElements := el2\<rparr>\<rparr>)"

definition detect_code_block :: "string \<Rightarrow> parser_state \<Rightarrow> parser_state" where
  "detect_code_block trimmedLine s =
     (let s1 = (if includes_ci trimmedLine ''<code begins>''
                then s\<lparr>inCodeBlock := True, data := (data s)\<lparr>codeBlocks := True\<rparr>\<rparr> else s)
      in if includes_ci trimmedLine ''<code ends>'' then s1\<lparr>inCodeBlock := False\<rparr> else s1)"

definition detect_inline_code :: "string \<Rightarrow> parser_state \<Rightarrow> parser_state" where
  "detect_inline_code ln s =
     (if inCodeBlock s then s
      else case INLINE_CODE_FORMAT_exec (INLINE_CODE_FORMAT_lastIndex (regexes s)) ln of
             (found, lastIndex) \<Rightarrow>
               (let s1 = s\<lparr>regexes := (regexes s)\<lparr>INLINE_CODE_FORMAT_lastIndex := lastIndex\<rparr>\<rparr>
                in case found of
                     None \<Rightarrow> s1
                   | Some i \<Rightarrow> s1\<lparr>data := (data s1)\<lparr>inlineCode := inlineCode (data s1)
                                    @ [\<lparr>at_line = lineIdx s, at_pos = i + 1\<rparr>]\<rparr>\<rparr>))"

definition part_after_colon :: "string \<Rightarrow> string option" where
  \<comment> \<open>\<^verbatim>\<open>left.split(':')?.[1]?.trim()\<close>\<close>
  "part_after_colon left = (case split_on (CHR '':'') left of _ # p # _ \<Rightarrow> Some (trim p) | _ \<Rightarrow> None)"

fun fill_org_backwards :: "string \<Rightarrow> author list \<Rightarrow> author list" where
  \<comment> \<open>on the reversed list: the authors up to the first one that has an organization get this one\<close>
  "fill_org_backwards v [] = []"
| "fill_org_backwards v (a # as) =
     (if org a \<noteq> None then a # as else a\<lparr>org := Some v\<rparr> # fill_org_backwards v as)"

definition fill_org :: "string \<Rightarrow> author list \<Rightarrow> author list" where
  \<comment> \<open>\<^verbatim>\<open>authors.findLast(el => ...)\<close> with the assignment to \<^verbatim>\<open>el.org\<close> in its callback\<close>
  "fill_org v as = rev (fill_org_backwards v (rev as))"

definition header_kind :: "string \<Rightarrow> parser_state \<Rightarrow> parser_state" where
  "header_kind left s =
     (if includes_str left ''Internet-Draft'' then s\<lparr>docKind := Some ''draft''\<rparr>
      else if startsWith left ''Request for Comments''
      then (update_header (\<lambda>h. h\<lparr>rfcNumber := part_after_colon left\<rparr>) s)\<lparr>docKind := Some ''rfc''\<rparr>
      else s)"

definition header_obsoletes :: "string \<Rightarrow> parser_state \<Rightarrow> flow" where
  \<comment> \<open>reading \<^verbatim>\<open>indexOf\<close> of the part after the colon throws when there is no colon\<close>
  "header_obsoletes left s =
     (if startsWith left ''Obsoletes''
      then (case part_after_colon left of
              None \<Rightarrow> Thrown s
            | Some v \<Rightarrow>
                Proceed (update_header (\<lambda>h. h\<lparr>obsoletes :=
                  Some (if CHR '','' \<in> set v then map trim (split_on (CHR '','') v) else [v])\<rparr>) s))
      else Proceed s)"

definition header_issn :: "string \<Rightarrow> parser_state \<Rightarrow> parser_state" where
  "header_issn left s =
     (if startsWith left ''ISSN'' then update_header (\<lambda>h. h\<lparr>issn := part_after_colon left\<rparr>) s else s)"

definition header_date_of :: "string \<Rightarrow> parser_state \<Rightarrow> parser_state" where
  "header_date_of left s =
     (case DATE_RE left of
        None \<Rightarrow> s
      | Some (d, m, y) \<Rightarrow>
          update_header (\<lambda>h. h\<lparr>date := Some \<lparr>day = map_option parseInt d, month = m, year = parseInt y\<rparr>\<rparr>) s)"

definition header_author :: "string option \<Rightarrow> parser_state \<Rightarrow> parser_state" where
  \<comment> \<open>the right column: the name of an author, or else the organization of the last authors\<close>
  "header_author right s =
     (if date (header (data s)) \<noteq> None then s
      else
        (let s1 =
           (if AUTHOR_NAME_RE (case right of None \<Rightarrow> ''null'' | Some r \<Rightarrow> r)
            then update_header (\<lambda>h. h\<lparr>authors :=
                   (if lineIdx s > lastAuthor (of_header (markers s)) + 1
                    then fill_org [] (authors h) else authors h)
                   @ [\<lparr>author_name = the right, org = None\<rparr>]\<rparr>) s
            else if truthy right
            then update_header (\<lambda>h. h\<lparr>authors := fill_org (the right) (authors h)\<rparr>) s
            else s)
         in update_header_marker (\<lambda>m. m\<lparr>lastAuthor := lineIdx s\<rparr>) s1))"

definition header_fields :: "string \<Rightarrow> string \<Rightarrow> parser_state \<Rightarrow> flow" where
  \<comment> \<open>a line of the header after the first: the values of its two columns\<close>
  "header_fields ln trimmedLine s =
     (case (case LINE_VALUES_EXTRACT_RE ln of Some (l, r) \<Rightarrow> (l, Some r) | None \<Rightarrow> (trimmedLine, None)) of
        (left, right) \<Rightarrow>
          if left = [] then Proceed s
          else (case header_obsoletes left (header_kind left s) of
                  Thrown s1 \<Rightarrow> Thrown s1
                | Continue s1 \<Rightarrow> Continue s1
                | Proceed s1 \<Rightarrow> Proceed (header_author right (header_date_of left (header_issn left s1)))))"

definition header_first_line :: "string \<Rightarrow> parser_state \<Rightarrow> flow" where
  \<comment> \<open>lines 345 to 357: the groups of a line that does not match are read from null, which throws\<close>
  "header_first_line trimmedLine s =
     (let s1 = update_header_marker (\<lambda>m. m\<lparr>start := lineIdx s, endLine := lineIdx s\<rparr>) s
      in case LINE_VALUES_EXTRACT_RE trimmedLine of
           None \<Rightarrow> Thrown s1
         | Some (left, right) \<Rightarrow>
             Continue (update_header_marker (\<lambda>m. m\<lparr>lastAuthor := lineIdx s\<rparr>)
               (update_header (\<lambda>h. h\<lparr>source := Some left,
                  authors := authors h @ [\<lparr>author_name = right, org = None\<rparr>]\<rparr>) s1)))"

definition close_header :: "string \<Rightarrow> parser_state \<Rightarrow> parser_state" where
  "close_header trimmedLine s =
     (update_header_marker (\<lambda>m. m\<lparr>closed := True\<rparr>) s)
       \<lparr>markers := (markers (update_header_marker (\<lambda>m. m\<lparr>closed := True\<rparr>) s))\<lparr>of_title := lineIdx s\<rparr>,
        data := (data s)\<lparr>title := Some trimmedLine\<rparr>\<rparr>"

definition header_block :: "string \<Rightarrow> string \<Rightarrow> parser_state \<Rightarrow> flow" where
  \<comment> \<open>lines 345 to 458\<close>
  "header_block ln trimmedLine s =
     (if start (of_header (markers s)) = 0 then header_first_line trimmedLine s
      else if \<not> closed (of_header (markers s))
      then (if lineIdx s > endLine (of_header (markers s)) + 1 then Proceed (close_header trimmedLine s)
            else header_fields ln trimmedLine (update_header_marker (\<lambda>m. m\<lparr>endLine := lineIdx s\<rparr>) s))
      else Proceed s)"

definition slug_line :: "string \<Rightarrow> parser_state \<Rightarrow> flow" where
  \<comment> \<open>lines 459 to 463\<close>
  "slug_line trimmedLine s =
     (if truthy (title (data s)) \<and> lineIdx s = of_title (markers s) + 1
      then Continue (s\<lparr>markers := (markers s)\<lparr>of_slug := lineIdx s\<rparr>,
                       data := (data s)\<lparr>slug := Some trimmedLine\<rparr>\<rparr>)
      else Proceed s)"

definition abstract_block :: "string \<Rightarrow> string \<Rightarrow> parser_state \<Rightarrow> parser_state" where
  \<comment> \<open>lines 467 to 476\<close>
  "abstract_block ln trimmedLine s =
     (if trimmedLine = ''Abstract''
      then set_content abstract (Some [])
             ((update_marker abstract (\<lambda>m. m\<lparr>start := lineIdx s\<rparr>) s)\<lparr>currentSection := Some abstract\<rparr>)
      else if start (of_section (markers s) abstract) \<noteq> 0 \<and> \<not> closed (of_section (markers s) abstract)
              \<and> (startsWith trimmedLine ''Status of'' \<or> \<not> startsWith ln ''  '')
      then update_marker abstract (\<lambda>m. m\<lparr>endLine := lineIdx s - 1, closed := True\<rparr>) s
      else s)"

definition header_block_again :: "string \<Rightarrow> parser_state \<Rightarrow> flow" where
  \<comment> \<open>lines 478 to 497\<close>
  "header_block_again trimmedLine s =
     (if start (of_header (markers s)) = 0
      then (let s1 = update_header_marker (\<lambda>m. m\<lparr>start := lineIdx s, endLine := lineIdx s\<rparr>) s;
                s2 = (case LINE_VALUES_EXTRACT_RE trimmedLine of
                        None \<Rightarrow> s1
                      | Some (left, right) \<Rightarrow>
                          update_header (\<lambda>h. h\<lparr>source := Some left,
                            authors := authors h @ [\<lparr>author_name = right, org = None\<rparr>]\<rparr>) s1)
            in Continue (update_header_marker (\<lambda>m. m\<lparr>lastAuthor := lineIdx s\<rparr>) s2))
      else if \<not> closed (of_header (markers s))
      then Continue (if lineIdx s > endLine (of_header (markers s)) + 1 then close_header trimmedLine s
                     else update_header_marker (\<lambda>m. m\<lparr>endLine := lineIdx s\<rparr>) s)
      else Proceed s)"

definition is_section_heading :: "string \<Rightarrow> bool" where
  "is_section_heading trimmedLine = (SECTION_PATTERN trimmedLine \<or> AUTHOR_SECTION_RE trimmedLine)"

definition close_current :: "nat \<Rightarrow> parser_state \<Rightarrow> parser_state" where
  \<comment> \<open>\<^verbatim>\<open>if (currentSection && !markers[currentSection].closed)\<close>: close it at the given line\<close>
  "close_current e s =
     (case currentSection s of
        None \<Rightarrow> s
      | Some k \<Rightarrow>
          if closed (of_section (markers s) k) then s
          else update_marker k (\<lambda>m. m\<lparr>endLine := e, closed := True\<rparr>) s)"

definition section_detection :: "string \<Rightarrow> parser_state \<Rightarrow> parser_state" where
  \<comment> \<open>lines 500 to 515\<close>
  "section_detection trimmedLine s =
     (if is_section_heading trimmedLine
      then (let s1 = close_current (lineIdx s - 1) s
            in case sectionMatchers trimmedLine of
                 Some k \<Rightarrow> set_content k (Some [])
                             ((update_marker k (\<lambda>m. m\<lparr>start := lineIdx s\<rparr>) s1)\<lparr>currentSection := Some k\<rparr>)
               | None \<Rightarrow> s1\<lparr>currentSection := None\<rparr>)
      else s)"

definition subsection_detection :: "string \<Rightarrow> parser_state \<Rightarrow> parser_state" where
  \<comment> \<open>lines 518 to 523: the test of TOC_PATTERN is made only when the first test succeeds\<close>
  "subsection_detection trimmedLine s =
     (case SUBSECTION_PATTERN_test (SUBSECTION_PATTERN_lastIndex (regexes s)) trimmedLine of
        (found, lastIndex) \<Rightarrow>
          (let s1 = s\<lparr>regexes := (regexes s)\<lparr>SUBSECTION_PATTERN_lastIndex := lastIndex\<rparr>\<rparr>
           in if found \<and> \<not> TOC_PATTERN trimmedLine
              then s1\<lparr>currentSubSection := subsectionMatchers trimmedLine\<rparr>
              else s1))"

definition add_content :: "string \<Rightarrow> parser_state \<Rightarrow> flow" where
  \<comment> \<open>lines 526 to 528: pushing to a content that is still null would throw\<close>
  "add_content trimmedLine s =
     (case currentSection s of
        None \<Rightarrow> Continue s
      | Some k \<Rightarrow>
          if start (of_section (markers s) k) \<noteq> 0 \<and> \<not> closed (of_section (markers s) k)
          then (case content (data s) k of
                  None \<Rightarrow> Thrown s
                | Some ls \<Rightarrow> Continue (set_content k (Some (ls @ [trimmedLine])) s))
          else Continue s)"

definition after_header :: "string \<Rightarrow> string \<Rightarrow> parser_state \<Rightarrow> flow" where
  \<comment> \<open>lines 459 to 528\<close>
  "after_header ln trimmedLine s =
     (case slug_line trimmedLine s of
        Thrown s1 \<Rightarrow> Thrown s1
      | Continue s1 \<Rightarrow> Continue s1
      | Proceed s1 \<Rightarrow>
          (case header_block_again trimmedLine (abstract_block ln trimmedLine s1) of
             Thrown s2 \<Rightarrow> Thrown s2
           | Continue s2 \<Rightarrow> Continue s2
           | Proceed s2 \<Rightarrow>
               add_content trimmedLine
                 (subsection_detection trimmedLine (section_detection trimmedLine s2))))"

definition step :: "string \<Rightarrow> parser_state \<Rightarrow> flow" where
  \<comment> \<open>the body of the loop over the lines\<close>
  "step ln s0 =
     (let trimmedLine = trim ln; s = s0\<lparr>lineIdx := lineIdx s0 + 1\<rparr>
      in if CHR 0x0C \<in> set ln then Continue (s\<lparr>data := (data s)\<lparr>pageCount := pageCount (data s) + 1\<rparr>\<rparr>)
         else if trimmedLine = [] then Continue s
         else (case header_block ln trimmedLine
                      (detect_inline_code ln (detect_code_block trimmedLine (extract_references trimmedLine s))) of
                 Thrown s1 \<Rightarrow> Thrown s1
               | Continue s1 \<Rightarrow> Continue s1
               | Proceed s1 \<Rightarrow> after_header ln trimmedLine s1))"

fun run_lines :: "string list \<Rightarrow> parser_state \<Rightarrow> flow" where
  "run_lines [] s = Continue s"
| "run_lines (ln # lns) s =
     (case step ln s of
        Thrown s1 \<Rightarrow> Thrown s1
      | Continue s1 \<Rightarrow> run_lines lns s1
      | Proceed s1 \<Rightarrow> run_lines lns s1)"

definition parse :: "regexes \<Rightarrow> string \<Rightarrow> string \<Rightarrow> (exn + TXTDocObject) \<times> regexes" where
  \<comment> \<open>the result of the call, or what it throws, and the expressions of the module after it\<close>
  "parse rs rawText fname =
     (case run_lines (split_on (CHR 0x0A) rawText) (initial_state rs) of
        Thrown s \<Rightarrow> (Inl (TXT_PARSING_FAILED (lineIdx s)), regexes s)
      | Continue s \<Rightarrow>
          (let s1 = close_current (lineIdx s) s
           in (Inr \<lparr>kind = docKind s1, body = rawText, parsed = data s1,
                    parsed_markers = markers s1, txt_filename = fname\<rparr>, regexes s1))
      | Proceed s \<Rightarrow>
          (let s1 = close_current (lineIdx s) s
           in (Inr \<lparr>kind = docKind s1, body = rawText, parsed = data s1,
                    parsed_markers = markers s1, txt_filename = fname\<rparr>, regexes s1)))"

section \<open>Notions used to state the properties\<close>

definition error_findings :: "finding list \<Rightarrow> finding list" where
  \<comment> \<open>the findings of Error severity\<close>
  "error_findings res = filter (\<lambda>f. cls f = ValidationError) res"



definition txt_with_references :: "rfc_reference list \<Rightarrow> document" where
  \<comment> \<open>the text document of the tests: only \<^verbatim>\<open>referenceSectionRfc\<close> is set\<close>
  "txt_with_references refs =
     TXT \<lparr>nonReferenceSectionRfc = [], referenceSectionRfc = refs,
          nonReferenceSectionDraftReferences = [], referenceSectionDraftReferences = []\<rparr>"





definition incomplete_remote :: remote where
  \<comment> \<open>RFC 4086 is obsoleted by RFC 9000; the answer for any other RFC has a status and no
      \<^verbatim>\<open>obsoleted_by\<close> member\<close>
  "incomplete_remote =
     \<lparr>fetchRemoteRfcInfo = (\<lambda>r.
        if r = ''4086''
        then Some \<lparr>status = Some ''Proposed Standard'', obsoleted_by = Some [''9000''], rfc = Some ''4086''\<rparr>
        else Some \<lparr>status = Some ''Proposed Standard'', obsoleted_by = None, rfc = Some r\<rparr>),
      fetchRemoteDocInfoJson = (\<lambda>_. None),
      checkReferencesInDownrefs = (\<lambda>_. []),
      getStatusWeight = (\<lambda>s. if s = ''Proposed Standard'' then Some 1 else None)\<rparr>"

definition xml_with_anchors :: "string list \<Rightarrow> document" where
  \<comment> \<open>an XML document with one section of references, which have the anchors\<close>
  "xml_with_anchors as = XML (Some [\<lparr>reference = Some (map (\<lambda>a. \<lparr>anchor = Some a\<rparr>) as)\<rparr>])"



subsection \<open>Notions for the text parser\<close>

fun flow_state :: "flow \<Rightarrow> parser_state" where
  \<comment> \<open>the state with which the body of the loop ends, however it ends\<close>
  "flow_state (Thrown s) = s"
| "flow_state (Continue s) = s"
| "flow_state (Proceed s) = s"

definition line_elements :: "string \<Rightarrow> parser_state \<Rightarrow> extractedElements" where
  \<comment> \<open>the extracted elements after a line: a page break and an empty line leave them alone\<close>
  "line_elements ln s =
     (if CHR 0x0C \<in> set ln \<or> trim ln = [] then extractedElements (data s)
      else extractedElements (data (extract_references (trim ln) s)))"

definition rfc_distinct :: "extractedElements \<Rightarrow> bool" where
  \<comment> \<open>no RFC number stands twice in a bucket\<close>
  "rfc_distinct el = (distinct (nonReferenceSectionRfc el) \<and> distinct (map ref_value (referenceSectionRfc el)))"

definition rfc_numbers :: "extractedElements \<Rightarrow> string set" where
  \<comment> \<open>the RFC numbers of the two buckets\<close>
  "rfc_numbers el = set (nonReferenceSectionRfc el) \<union> ref_value ` set (referenceSectionRfc el)"

fun is_thrown :: "flow \<Rightarrow> bool" where
  \<comment> \<open>the loop was left by an exception\<close>
  "is_thrown (Thrown s) = True"
| "is_thrown (Continue s) = False"
| "is_thrown (Proceed s) = False"

text \<open>The section markers, the current section and the line counter.\<close>

type_synonym sections_part = "(section_name \<Rightarrow> marker) \<times> section_name option \<times> nat"

definition part_of :: "parser_state \<Rightarrow> sections_part" where
  \<comment> \<open>the part of the state that the section markers depend on\<close>
  "part_of s = (of_section (markers s), currentSection s, lineIdx s)"

definition abstract_part :: "string \<Rightarrow> string \<Rightarrow> sections_part \<Rightarrow> sections_part" where
  \<comment> \<open>what \<^verbatim>\<open>abstract_block\<close> does to that part\<close>
  "abstract_part ln t p =
     (case p of (M, cur, idx) \<Rightarrow>
        if t = ''Abstract'' then (M(abstract := (M abstract)\<lparr>start := idx\<rparr>), Some abstract, idx)
        else if start (M abstract) \<noteq> 0 \<and> \<not> closed (M abstract)
                \<and> (startsWith t ''Status of'' \<or> \<not> startsWith ln ''  '')
        then (M(abstract := (M abstract)\<lparr>endLine := idx - 1, closed := True\<rparr>), cur, idx)
        else (M, cur, idx))"

definition close_part :: "nat \<Rightarrow> (section_name \<Rightarrow> marker) \<Rightarrow> section_name option \<Rightarrow> section_name \<Rightarrow> marker" where
  \<comment> \<open>what \<^verbatim>\<open>close_current\<close> does to the section markers\<close>
  "close_part e M cur =
     (case cur of None \<Rightarrow> M
      | Some k \<Rightarrow> if closed (M k) then M else M(k := (M k)\<lparr>endLine := e, closed := True\<rparr>))"

definition section_part :: "string \<Rightarrow> sections_part \<Rightarrow> sections_part" where
  \<comment> \<open>what \<^verbatim>\<open>section_detection\<close> does to that part\<close>
  "section_part t p =
     (case p of (M, cur, idx) \<Rightarrow>
        if is_section_heading t
        then (case sectionMatchers t of
                Some k \<Rightarrow> ((close_part (idx - 1) M cur)(k := (close_part (idx - 1) M cur k)\<lparr>start := idx\<rparr>), Some k, idx)
              | None \<Rightarrow> (close_part (idx - 1) M cur, None, idx))
        else (M, cur, idx))"

definition next_line :: "sections_part \<Rightarrow> sections_part" where
  \<comment> \<open>the line counter moves on\<close>
  "next_line p = (case p of (M, cur, idx) \<Rightarrow> (M, cur, idx + 1))"

definition opens_section :: "string \<Rightarrow> section_name \<Rightarrow> bool" where
  \<comment> \<open>the line sets the start of the marker of the section, when the parser comes to read it as such\<close>
  "opens_section ln k =
     ((trim ln = ''Abstract'' \<and> k = abstract)
      \<or> (is_section_heading (trim ln) \<and> sectionMatchers (trim ln) = Some k))"

definition openings :: "string list \<Rightarrow> section_name \<Rightarrow> nat" where
  \<comment> \<open>how many lines of the text open the section\<close>
  "openings lns k = length (filter (\<lambda>ln. opens_section ln k) lns)"

definition marker_inv :: "nat \<Rightarrow> nat \<Rightarrow> bool \<Rightarrow> marker \<Rightarrow> bool" where
  \<comment> \<open>what holds of a marker at line \<^verbatim>\<open>idx\<close>, when \<^verbatim>\<open>n\<close> lines so far open its section\<close>
  "marker_inv idx n is_current m =
     ((is_current \<longrightarrow> 1 \<le> start m) \<and> (1 \<le> start m \<longrightarrow> 1 \<le> n) \<and> (closed m \<longrightarrow> 1 \<le> start m)
      \<and> start m \<le> idx \<and> (closed m \<and> n \<le> 1 \<longrightarrow> start m \<le> endLine m))"

definition part_inv :: "string list \<Rightarrow> sections_part \<Rightarrow> bool" where
  \<comment> \<open>every marker satisfies \<^verbatim>\<open>marker_inv\<close>\<close>
  "part_inv lns p = (case p of (M, cur, idx) \<Rightarrow> \<forall>k. marker_inv idx (openings lns k) (cur = Some k) (M k))"

definition loop_end :: "regexes \<Rightarrow> string \<Rightarrow> flow" where
  \<comment> \<open>how the loop over the lines of the text ends\<close>
  "loop_end rs rawText = run_lines (split_on (CHR 0x0A) rawText) (initial_state rs)"

definition fresh_regexes :: regexes where
  \<comment> \<open>the expressions of the module as it is loaded: \<^verbatim>\<open>lastIndex\<close> is 0\<close>
  "fresh_regexes = \<lparr>INLINE_CODE_FORMAT_lastIndex = 0, SUBSECTION_PATTERN_lastIndex = 0\<rparr>"

definition appended_numbers :: "string list \<Rightarrow> string list \<Rightarrow> string list \<Rightarrow> bool" where
  \<comment> \<open>the new entries of a bucket: each match that the bucket did not hold, once\<close>
  "appended_numbers old ms new = (distinct new \<and> set new = set ms - set old)"

definition sample_text :: string where
  \<comment> \<open>a small document: header, title, an introduction and a references section\<close>
  "sample_text = ''A  B\<newline>\<newline>RFC 1, RFC 1\<newline>\<newline>1. Introduction\<newline>2. References\<newline>2.1. Normative References\<newline>[RFC2]  RFC 2''"

definition state_after :: "nat \<Rightarrow> string \<Rightarrow> parser_state" where
  \<comment> \<open>the state of a first parse when the given number of lines has been read\<close>
  "state_after n rawText = flow_state (run_lines (take n (split_on (CHR 0x0A) rawText)) (initial_state fresh_regexes))"

definition elements_after :: "string \<Rightarrow> parser_state \<Rightarrow> extractedElements" where
  \<comment> \<open>the extracted elements when one more line has been read\<close>
  "elements_after ln s = extractedElements (data (flow_state (step ln s)))"

definition reopened_text :: string where
  \<comment> \<open>a document in which the line \<^verbatim>\<open>Abstract\<close> comes twice\<close>
  "reopened_text = ''A  B\<newline>\<newline>Title\<newline>slug\<newline>Abstract\<newline>x\<newline>Abstract''"

section \<open>Theorems\<close>

text \<open>
  Claim C10. In JSON output mode the emitted \<^verbatim>\<open>file.size\<close> is 0, whatever the
  document path and whatever the findings.
\<close>

theorem json_file_size_zero:
  "\<exists>j. cli_output json docPath (Inr res) = Inr (Json j)
     \<and> size (file_of j) = 0 \<and> path (file_of j) = docPath"
  by (simp add: cli_output_def json_case_def)

subsection \<open>The result of a run\<close>

text \<open>
  Claim C1, as the claim states it, fails: the JSON case compares the number of
  findings with zero and does not look at their class, so a run whose only finding is
  a warning, with no finding of Error severity, has result "fail".
\<close>

theorem json_result_warning_fails:
  "error_findings [new_finding ValidationWarning ''MISSING_DOC_DATE'' ''The document date could not be determined.'' ''u''] = []
   \<and> result (json_case ''draft.xml''
        [new_finding ValidationWarning ''MISSING_DOC_DATE'' ''The document date could not be determined.'' ''u'']) = ''fail''"
  by (simp add: error_findings_def new_finding_def json_case_def)

text \<open>
  Claim C1, amended. For every run that completes, the JSON output has result "pass"
  exactly when the run produced no finding at all, and "fail" exactly when it produced
  at least one finding, of whatever severity.
\<close>

theorem json_result_pass_iff_no_finding:
  "(cli_output json docPath (Inr res) = Inr (Json (json_case docPath res)))
   \<and> (result (json_case docPath res) = ''pass'') = (res = [])
   \<and> (result (json_case docPath res) = ''fail'') = (res \<noteq> [])"
  by (simp add: cli_output_def json_case_def)

subsection \<open>The reference validators\<close>

text \<open>
  Claim C2. Called with mode SUBMISSION, each of the five reference validators returns
  the empty list of findings, for every document, text or XML, and whatever the remote
  lookups would answer.
\<close>

theorem submission_returns_no_findings:
  "validateDownrefs env doc SUBMISSION = Inr []
   \<and> validateNormativeReferences env doc SUBMISSION = Inr []
   \<and> validateUnclassifiedReferences env doc SUBMISSION = Inr []
   \<and> validateInformativeReferences env doc SUBMISSION = Inr []
   \<and> vlidateDraftReferences env doc SUBMISSION = Inr []"
  by (simp add: validateDownrefs_def validateNormativeReferences_def
      validateUnclassifiedReferences_def validateInformativeReferences_def vlidateDraftReferences_def)




text \<open>
  Claim C5 (a normative reference whose remote information has a status and
  \<^verbatim>\<open>obsoleted_by\<close> equal to ["9000"] gets an OBSOLETE_DOCUMENT finding, an Error in
  NORMAL mode and a Warning in FORGIVE_CHECKLIST mode) fails on the code. With the one
  reference 4086 the finding is returned in both modes. With a second normative
  reference, whose answer has a status and no \<^verbatim>\<open>obsoleted_by\<close> member, the validator
  reads the length of that member and throws a TypeError: the finding for 4086, pushed
  before, is lost with the list. The loop for XML documents does the same.
\<close>

theorem obsolete_finding_lost_by_throw:
  "validateNormativeReferences incomplete_remote
     (txt_with_references [\<lparr>ref_value = ''4086'', ref_subsection = Some ''normative_references''\<rparr>]) NORMAL
     = Inr [new_finding ValidationError ''OBSOLETE_DOCUMENT''
              ''The referenced document RFC 4086 is obsolete and has been replaced by: 9000.''
              ''https://www.rfc-editor.org/info/rfc4086'']
   \<and> validateNormativeReferences incomplete_remote
     (txt_with_references [\<lparr>ref_value = ''4086'', ref_subsection = Some ''normative_references''\<rparr>]) FORGIVE_CHECKLIST
     = Inr [new_finding ValidationWarning ''OBSOLETE_DOCUMENT''
              ''The referenced document RFC 4086 is obsolete and has been replaced by: 9000.''
              ''https://www.rfc-editor.org/info/rfc4086'']
   \<and> validateNormativeReferences incomplete_remote
     (txt_with_references [\<lparr>ref_value = ''4086'', ref_subsection = Some ''normative_references''\<rparr>,
                           \<lparr>ref_value = ''1'', ref_subsection = Some ''normative_references''\<rparr>]) NORMAL
     = Inl TypeError
   \<and> validateNormativeReferences incomplete_remote
     (txt_with_references [\<lparr>ref_value = ''4086'', ref_subsection = Some ''normative_references''\<rparr>,
                           \<lparr>ref_value = ''1'', ref_subsection = Some ''normative_references''\<rparr>]) FORGIVE_CHECKLIST
     = Inl TypeError
   \<and> validateNormativeReferences incomplete_remote (xml_with_anchors [''RFC4086'', ''RFC1'']) NORMAL
     = Inl TypeError"
  by code_simp






















subsection \<open>The XML adapter\<close>




















subsection \<open>The text parser\<close>

lemma update_header_frame [simp]:
  "extractedElements (data (update_header f s)) = extractedElements (data s)"
  "markers (update_header f s) = markers s"
  "currentSection (update_header f s) = currentSection s"
  "lineIdx (update_header f s) = lineIdx s"
  by (simp_all add: update_header_def)

lemma update_header_marker_frame [simp]:
  "data (update_header_marker f s) = data s"
  "of_section (markers (update_header_marker f s)) = of_section (markers s)"
  "of_header (markers (update_header_marker f s)) = f (of_header (markers s))"
  "currentSection (update_header_marker f s) = currentSection s"
  "lineIdx (update_header_marker f s) = lineIdx s"
  by (simp_all add: update_header_marker_def)

lemma update_marker_frame [simp]:
  "data (update_marker k f s) = data s"
  "of_section (markers (update_marker k f s)) = (of_section (markers s))(k := f (of_section (markers s) k))"
  "of_header (markers (update_marker k f s)) = of_header (markers s)"
  "currentSection (update_marker k f s) = currentSection s"
  "lineIdx (update_marker k f s) = lineIdx s"
  by (simp_all add: update_marker_def)

lemma set_content_frame [simp]:
  "extractedElements (data (set_content k v s)) = extractedElements (data s)"
  "markers (set_content k v s) = markers s"
  "currentSection (set_content k v s) = currentSection s"
  "lineIdx (set_content k v s) = lineIdx s"
  by (simp_all add: set_content_def)

lemma header_kind_frame [simp]:
  "extractedElements (data (header_kind left s)) = extractedElements (data s)"
  "markers (header_kind left s) = markers s"
  "currentSection (header_kind left s) = currentSection s"
  "lineIdx (header_kind left s) = lineIdx s"
  by (simp_all add: header_kind_def)

lemma header_obsoletes_frame [simp]:
  "extractedElements (data (flow_state (header_obsoletes left s))) = extractedElements (data s)"
  "markers (flow_state (header_obsoletes left s)) = markers s"
  "currentSection (flow_state (header_obsoletes left s)) = currentSection s"
  "lineIdx (flow_state (header_obsoletes left s)) = lineIdx s"
  by (simp_all add: header_obsoletes_def split: option.splits)

lemma header_issn_frame [simp]:
  "extractedElements (data (header_issn left s)) = extractedElements (data s)"
  "markers (header_issn left s) = markers s"
  "currentSection (header_issn left s) = currentSection s"
  "lineIdx (header_issn left s) = lineIdx s"
  by (simp_all add: header_issn_def)

lemma header_date_of_frame [simp]:
  "extractedElements (data (header_date_of left s)) = extractedElements (data s)"
  "markers (header_date_of left s) = markers s"
  "currentSection (header_date_of left s) = currentSection s"
  "lineIdx (header_date_of left s) = lineIdx s"
  by (simp_all add: header_date_of_def split: option.splits prod.splits)

lemma header_author_frame [simp]:
  "extractedElements (data (header_author right s)) = extractedElements (data s)"
  "of_section (markers (header_author right s)) = of_section (markers s)"
  "currentSection (header_author right s) = currentSection s"
  "lineIdx (header_author right s) = lineIdx s"
  by (simp_all add: header_author_def Let_def)

lemma header_fields_frame [simp]:
  "extractedElements (data (flow_state (header_fields ln t s))) = extractedElements (data s)"
  "of_section (markers (flow_state (header_fields ln t s))) = of_section (markers s)"
  "currentSection (flow_state (header_fields ln t s)) = currentSection s"
  "lineIdx (flow_state (header_fields ln t s)) = lineIdx s"
proof -
  obtain left right where lr:
    "(case LINE_VALUES_EXTRACT_RE ln of Some (l, r) \<Rightarrow> (l, Some r) | None \<Rightarrow> (t, None)) = (left, right)"
    by (cases "case LINE_VALUES_EXTRACT_RE ln of Some (l, r) \<Rightarrow> (l, Some r) | None \<Rightarrow> (t, None)")
  define f where "f = header_obsoletes left (header_kind left s)"
  have f: "extractedElements (data (flow_state f)) = extractedElements (data s)"
     "markers (flow_state f) = markers s" "currentSection (flow_state f) = currentSection s"
     "lineIdx (flow_state f) = lineIdx s"
    by (simp_all add: f_def)
  have hf: "header_fields ln t s =
     (if left = [] then Proceed s
      else case f of Thrown s1 \<Rightarrow> Thrown s1 | Continue s1 \<Rightarrow> Continue s1
           | Proceed s1 \<Rightarrow> Proceed (header_author right (header_date_of left (header_issn left s1))))"
    by (simp add: header_fields_def lr f_def)
  show "extractedElements (data (flow_state (header_fields ln t s))) = extractedElements (data s)"
    using f by (cases f) (simp_all add: hf)
  show "of_section (markers (flow_state (header_fields ln t s))) = of_section (markers s)"
    using f by (cases f) (simp_all add: hf)
  show "currentSection (flow_state (header_fields ln t s)) = currentSection s"
    using f by (cases f) (simp_all add: hf)
  show "lineIdx (flow_state (header_fields ln t s)) = lineIdx s"
    using f by (cases f) (simp_all add: hf)
qed

lemma header_first_line_frame [simp]:
  "extractedElements (data (flow_state (header_first_line t s))) = extractedElements (data s)"
  "of_section (markers (flow_state (header_first_line t s))) = of_section (markers s)"
  "currentSection (flow_state (header_first_line t s)) = currentSection s"
  "lineIdx (flow_state (header_first_line t s)) = lineIdx s"
  by (simp_all add: header_first_line_def Let_def split: option.splits prod.splits)

lemma close_header_frame [simp]:
  "extractedElements (data (close_header t s)) = extractedElements (data s)"
  "of_section (markers (close_header t s)) = of_section (markers s)"
  "currentSection (close_header t s) = currentSection s"
  "lineIdx (close_header t s) = lineIdx s"
  by (simp_all add: close_header_def)

lemma header_block_frame [simp]:
  "extractedElements (data (flow_state (header_block ln t s))) = extractedElements (data s)"
  "of_section (markers (flow_state (header_block ln t s))) = of_section (markers s)"
  "currentSection (flow_state (header_block ln t s)) = currentSection s"
  "lineIdx (flow_state (header_block ln t s)) = lineIdx s"
  by (simp_all add: header_block_def)

lemma slug_line_frame [simp]:
  "extractedElements (data (flow_state (slug_line t s))) = extractedElements (data s)"
  "of_section (markers (flow_state (slug_line t s))) = of_section (markers s)"
  "of_header (markers (flow_state (slug_line t s))) = of_header (markers s)"
  "currentSection (flow_state (slug_line t s)) = currentSection s"
  "lineIdx (flow_state (slug_line t s)) = lineIdx s"
  by (simp_all add: slug_line_def)

lemma header_block_again_frame [simp]:
  "extractedElements (data (flow_state (header_block_again t s))) = extractedElements (data s)"
  "of_section (markers (flow_state (header_block_again t s))) = of_section (markers s)"
  "currentSection (flow_state (header_block_again t s)) = currentSection s"
  "lineIdx (flow_state (header_block_again t s)) = lineIdx s"
  by (simp_all add: header_block_again_def Let_def split: option.splits prod.splits)

lemma abstract_block_frame [simp]:
  "extractedElements (data (abstract_block ln t s)) = extractedElements (data s)"
  "of_header (markers (abstract_block ln t s)) = of_header (markers s)"
  "lineIdx (abstract_block ln t s) = lineIdx s"
  by (simp_all add: abstract_block_def)

lemma close_current_frame [simp]:
  "data (close_current e s) = data s"
  "of_header (markers (close_current e s)) = of_header (markers s)"
  "currentSection (close_current e s) = currentSection s"
  "lineIdx (close_current e s) = lineIdx s"
  "docKind (close_current e s) = docKind s"
  "regexes (close_current e s) = regexes s"
  by (simp_all add: close_current_def update_marker_def split: option.splits)

lemma section_detection_frame [simp]:
  "extractedElements (data (section_detection t s)) = extractedElements (data s)"
  "of_header (markers (section_detection t s)) = of_header (markers s)"
  "lineIdx (section_detection t s) = lineIdx s"
  by (simp_all add: section_detection_def Let_def split: option.splits)

lemma subsection_detection_frame [simp]:
  "data (subsection_detection t s) = data s"
  "markers (subsection_detection t s) = markers s"
  "currentSection (subsection_detection t s) = currentSection s"
  "lineIdx (subsection_detection t s) = lineIdx s"
  by (simp_all add: subsection_detection_def Let_def split: prod.splits)

lemma add_content_frame [simp]:
  "extractedElements (data (flow_state (add_content t s))) = extractedElements (data s)"
  "markers (flow_state (add_content t s)) = markers s"
  "currentSection (flow_state (add_content t s)) = currentSection s"
  "lineIdx (flow_state (add_content t s)) = lineIdx s"
  by (simp_all add: add_content_def split: option.splits)

lemma detect_code_block_frame [simp]:
  "extractedElements (data (detect_code_block t s)) = extractedElements (data s)"
  "markers (detect_code_block t s) = markers s"
  "currentSection (detect_code_block t s) = currentSection s"
  "lineIdx (detect_code_block t s) = lineIdx s"
  by (simp_all add: detect_code_block_def Let_def)

lemma detect_inline_code_frame [simp]:
  "extractedElements (data (detect_inline_code ln s)) = extractedElements (data s)"
  "markers (detect_inline_code ln s) = markers s"
  "currentSection (detect_inline_code ln s) = currentSection s"
  "lineIdx (detect_inline_code ln s) = lineIdx s"
  by (simp_all add: detect_inline_code_def Let_def split: option.splits prod.splits)

lemma extract_references_frame [simp]:
  "markers (extract_references t s) = markers s"
  "currentSection (extract_references t s) = currentSection s"
  "lineIdx (extract_references t s) = lineIdx s"
  by (simp_all add: extract_references_def Let_def)

lemma after_header_elements [simp]:
  "extractedElements (data (flow_state (after_header ln t s))) = extractedElements (data s)"
proof (cases "slug_line t s")
  case (Proceed s1)
  have s1: "extractedElements (data s1) = extractedElements (data s)"
    using slug_line_frame(1)[of t s] Proceed by simp
  show ?thesis
  proof (cases "header_block_again t (abstract_block ln t s1)")
    case (Proceed s2)
    have "extractedElements (data s2) = extractedElements (data s1)"
      using header_block_again_frame(1)[of t "abstract_block ln t s1"] Proceed by simp
    with s1 Proceed \<open>slug_line t s = Proceed s1\<close> show ?thesis
      by (simp add: after_header_def)
  next
    case (Thrown s2)
    have "extractedElements (data s2) = extractedElements (data s1)"
      using header_block_again_frame(1)[of t "abstract_block ln t s1"] Thrown by simp
    with s1 Thrown \<open>slug_line t s = Proceed s1\<close> show ?thesis
      by (simp add: after_header_def)
  next
    case (Continue s2)
    have "extractedElements (data s2) = extractedElements (data s1)"
      using header_block_again_frame(1)[of t "abstract_block ln t s1"] Continue by simp
    with s1 Continue \<open>slug_line t s = Proceed s1\<close> show ?thesis
      by (simp add: after_header_def)
  qed
next
  case (Thrown s1)
  then show ?thesis using slug_line_frame(1)[of t s] by (simp add: after_header_def)
next
  case (Continue s1)
  then show ?thesis using slug_line_frame(1)[of t s] by (simp add: after_header_def)
qed

lemma extract_references_lineIdx:
  "extractedElements (data (extract_references t (s\<lparr>lineIdx := n\<rparr>))) = extractedElements (data (extract_references t s))"
  by (simp add: extract_references_def Let_def)

lemma step_elements:
  "extractedElements (data (flow_state (step ln s))) = line_elements ln s"
proof -
  let ?t = "trim ln"
  let ?s1 = "s\<lparr>lineIdx := lineIdx s + 1\<rparr>"
  let ?s2 = "detect_inline_code ln (detect_code_block ?t (extract_references ?t ?s1))"
  have e2: "extractedElements (data ?s2) = extractedElements (data (extract_references ?t s))"
    by (simp add: extract_references_lineIdx)
  show ?thesis
  proof (cases "CHR 0x0C \<in> set ln \<or> ?t = []")
    case True
    then show ?thesis by (auto simp: step_def line_elements_def Let_def)
  next
    case False
    then have st: "step ln s = (case header_block ln ?t ?s2 of Thrown a \<Rightarrow> Thrown a | Continue a \<Rightarrow> Continue a
                                 | Proceed a \<Rightarrow> after_header ln ?t a)"
      by (simp add: step_def Let_def)
    have "extractedElements (data (flow_state (step ln s))) = extractedElements (data ?s2)"
    proof (cases "header_block ln ?t ?s2")
      case (Proceed a)
      then have a: "a = flow_state (header_block ln ?t ?s2)" by simp
      have "extractedElements (data a) = extractedElements (data ?s2)" unfolding a by simp
      with Proceed st show ?thesis by simp
    next
      case (Thrown a)
      then have a: "a = flow_state (header_block ln ?t ?s2)" by simp
      have "extractedElements (data a) = extractedElements (data ?s2)" unfolding a by simp
      with Thrown st show ?thesis by simp
    next
      case (Continue a)
      then have a: "a = flow_state (header_block ln ?t ?s2)" by simp
      have "extractedElements (data a) = extractedElements (data ?s2)" unfolding a by simp
      with Continue st show ?thesis by simp
    qed
    with e2 False show ?thesis by (simp add: line_elements_def)
  qed
qed

lemma add_rfc_reference_distinct:
  "rfc_distinct el \<Longrightarrow> rfc_distinct (add_rfc_reference cur sub el n)"
  by (auto simp: rfc_distinct_def add_rfc_reference_def list_ex_iff)

lemma add_rfc_reference_numbers:
  "rfc_numbers el \<subseteq> rfc_numbers (add_rfc_reference cur sub el n)"
  "n \<noteq> [] \<Longrightarrow> n \<in> rfc_numbers (add_rfc_reference cur sub el n)"
  by (auto simp: rfc_numbers_def add_rfc_reference_def list_ex_iff)

lemma add_draft_reference_rfc:
  "rfc_distinct (add_draft_reference cur sub el d) = rfc_distinct el"
  "rfc_numbers (add_draft_reference cur sub el d) = rfc_numbers el"
  by (auto simp: rfc_distinct_def rfc_numbers_def add_draft_reference_def)

lemma foldl_add_rfc_reference:
  "rfc_distinct el \<Longrightarrow> rfc_distinct (foldl (add_rfc_reference cur sub) el ns)"
  "rfc_numbers el \<subseteq> rfc_numbers (foldl (add_rfc_reference cur sub) el ns)"
  "\<forall>n \<in> set ns. n \<noteq> [] \<Longrightarrow> set ns \<subseteq> rfc_numbers (foldl (add_rfc_reference cur sub) el ns)"
proof (induction ns arbitrary: el)
  case Nil
  { case 1 then show ?case by simp }
  { case 2 show ?case by simp }
  { case 3 show ?case by simp }
next
  case (Cons n ns)
  { case 1 then show ?case using Cons.IH(1) add_rfc_reference_distinct by simp }
  { case 2 show ?case using Cons.IH(2)[of "add_rfc_reference cur sub el n"] add_rfc_reference_numbers(1) by fastforce }
  { case 3
    then have n: "n \<noteq> []" and ns: "\<forall>n \<in> set ns. n \<noteq> []" by auto
    have "n \<in> rfc_numbers (add_rfc_reference cur sub el n)" using n by (rule add_rfc_reference_numbers(2))
    then have "n \<in> rfc_numbers (foldl (add_rfc_reference cur sub) (add_rfc_reference cur sub el n) ns)"
      using Cons.IH(2)[of "add_rfc_reference cur sub el n"] by blast
    with Cons.IH(3)[OF ns, of "add_rfc_reference cur sub el n"] show ?case by simp }
qed

lemma foldl_add_draft_reference:
  "rfc_distinct (foldl (add_draft_reference cur sub) el ds) = rfc_distinct el"
  "rfc_numbers (foldl (add_draft_reference cur sub) el ds) = rfc_numbers el"
  by (induction ds arbitrary: el) (simp_all add: add_draft_reference_rfc)

lemma scan_matches_from_matcher:
  "x \<in> set (scan_matches m k p s) \<Longrightarrow> \<exists>p' s' n. m p' s' = Some (x, n)"
proof (induction m k p s rule: scan_matches.induct)
  case (1 m skip prev)
  then show ?case by simp
next
  case (2 m k prev c cs)
  then show ?case by simp
next
  case (3 m prev c cs)
  show ?case
  proof (cases "m prev (c # cs)")
    case None
    with "3.prems" "3.IH"(1) show ?thesis by simp
  next
    case (Some a)
    obtain y n where a: "a = (y, n)" by (cases a)
    show ?thesis
    proof (cases "x = y")
      case True
      with Some a show ?thesis by blast
    next
      case False
      with "3.prems" Some a have "x \<in> set (scan_matches m (n - 1) (Some c) cs)" by simp
      from "3.IH"(2)[OF Some a[symmetric] this] show ?thesis .
    qed
  qed
qed

lemma rfc_reference_at_nonempty:
  assumes "rfc_reference_at p s = Some (x, n)"
  shows "x \<noteq> []"
proof -
  let ?r1 = "if list_ex is_space (take 1 (drop 3 s)) then drop 1 (drop 3 s) else drop 3 s"
  let ?c1 = "(case p of None \<Rightarrow> True | Some q \<Rightarrow> \<not> is_word q) \<and> toLowerCase (take 3 s) = ''rfc''
             \<and> takeWhile is_digit ?r1 \<noteq> [] \<and> not_word_next (dropWhile is_digit ?r1)"
  let ?c2 = "toLowerCase (take 4 s) = ''[rfc'' \<and> takeWhile is_digit (drop 4 s) \<noteq> []
             \<and> startsWith (dropWhile is_digit (drop 4 s)) '']''"
  have eq: "rfc_reference_at p s =
     (if ?c1 then Some (takeWhile is_digit ?r1, 3 + (length (drop 3 s) - length ?r1) + length (takeWhile is_digit ?r1))
      else if ?c2 then Some (takeWhile is_digit (drop 4 s), 5 + length (takeWhile is_digit (drop 4 s)))
      else None)"
    unfolding rfc_reference_at_def Let_def by (rule refl)
  show ?thesis
  proof (cases ?c1)
    case True
    note e = eq[unfolded if_P[OF True]]
    from assms e have "x = takeWhile is_digit ?r1" by simp
    with True show ?thesis by simp
  next
    case False
    note c1 = this
    show ?thesis
    proof (cases ?c2)
      case True
      note e = eq[unfolded if_not_P[OF c1] if_P[OF True]]
      from assms e have "x = takeWhile is_digit (drop 4 s)" by simp
      with True show ?thesis by simp
    next
      case False
      note e = eq[unfolded if_not_P[OF c1] if_not_P[OF False]]
      from assms e show ?thesis by simp
    qed
  qed
qed

lemma rfc_reference_matches_nonempty: "\<forall>n \<in> set (rfc_reference_matches t). n \<noteq> []"
proof
  fix n
  assume "n \<in> set (rfc_reference_matches t)"
  then have "n \<in> set (scan_matches rfc_reference_at 0 None t)"
    by (simp add: rfc_reference_matches_def)
  from scan_matches_from_matcher[OF this] obtain p s k where "rfc_reference_at p s = Some (n, k)"
    by blast
  then show "n \<noteq> []" by (rule rfc_reference_at_nonempty)
qed

lemma extract_references_elements:
  "rfc_distinct (extractedElements (data s)) \<Longrightarrow> rfc_distinct (extractedElements (data (extract_references t s)))"
  "rfc_numbers (extractedElements (data s)) \<subseteq> rfc_numbers (extractedElements (data (extract_references t s)))"
  "set (rfc_reference_matches t) \<subseteq> rfc_numbers (extractedElements (data (extract_references t s)))"
  by (simp_all add: extract_references_def Let_def foldl_add_draft_reference foldl_add_rfc_reference
      rfc_reference_matches_nonempty)

lemma trim_Nil_matches: "rfc_reference_matches [] = []"
  by (simp add: rfc_reference_matches_def)

lemma line_elements_rfc:
  "rfc_distinct (extractedElements (data s)) \<Longrightarrow> rfc_distinct (line_elements ln s)"
  "rfc_numbers (extractedElements (data s)) \<subseteq> rfc_numbers (line_elements ln s)"
  "CHR 0x0C \<notin> set ln \<Longrightarrow> set (rfc_reference_matches (trim ln)) \<subseteq> rfc_numbers (line_elements ln s)"
  by (simp_all add: line_elements_def extract_references_elements trim_Nil_matches)

lemma run_lines_step:
  "\<not> is_thrown (run_lines (ln # lns) s) \<Longrightarrow>
     \<not> is_thrown (step ln s) \<and> run_lines (ln # lns) s = run_lines lns (flow_state (step ln s))"
  by (cases "step ln s") simp_all

lemma run_lines_elements:
  "\<not> is_thrown (run_lines lns s) \<Longrightarrow> rfc_distinct (extractedElements (data s)) \<Longrightarrow>
     rfc_distinct (extractedElements (data (flow_state (run_lines lns s))))
     \<and> rfc_numbers (extractedElements (data s)) \<subseteq> rfc_numbers (extractedElements (data (flow_state (run_lines lns s))))
     \<and> (\<forall>ln \<in> set lns. CHR 0x0C \<notin> set ln \<longrightarrow>
           set (rfc_reference_matches (trim ln)) \<subseteq> rfc_numbers (extractedElements (data (flow_state (run_lines lns s)))))"
proof (induction lns arbitrary: s)
  case Nil
  then show ?case by simp
next
  case (Cons ln lns)
  let ?s1 = "flow_state (step ln s)"
  from run_lines_step[OF Cons.prems(1)]
  have run: "run_lines (ln # lns) s = run_lines lns ?s1" and nt: "\<not> is_thrown (run_lines lns ?s1)"
    using Cons.prems(1) by auto
  have e1: "extractedElements (data ?s1) = line_elements ln s" by (rule step_elements)
  have d1: "rfc_distinct (extractedElements (data ?s1))"
    unfolding e1 using Cons.prems(2) by (rule line_elements_rfc(1))
  from Cons.IH[OF nt d1] have
    ih1: "rfc_distinct (extractedElements (data (flow_state (run_lines lns ?s1))))" and
    ih2: "rfc_numbers (extractedElements (data ?s1)) \<subseteq> rfc_numbers (extractedElements (data (flow_state (run_lines lns ?s1))))" and
    ih3: "\<forall>l \<in> set lns. CHR 0x0C \<notin> set l \<longrightarrow>
           set (rfc_reference_matches (trim l)) \<subseteq> rfc_numbers (extractedElements (data (flow_state (run_lines lns ?s1))))"
    by auto
  have m0: "rfc_numbers (extractedElements (data s)) \<subseteq> rfc_numbers (extractedElements (data ?s1))"
    unfolding e1 by (rule line_elements_rfc(2))
  have m1: "CHR 0x0C \<notin> set ln \<Longrightarrow> set (rfc_reference_matches (trim ln)) \<subseteq> rfc_numbers (extractedElements (data ?s1))"
    unfolding e1 by (rule line_elements_rfc(3))
  show ?case
    unfolding run using ih1 ih2 ih3 m0 m1 by auto
qed

lemma part_of_abstract_block: "part_of (abstract_block ln t s) = abstract_part ln t (part_of s)"
  by (simp add: part_of_def abstract_block_def abstract_part_def)

lemma of_section_close_current:
  "of_section (markers (close_current e s)) = close_part e (of_section (markers s)) (currentSection s)"
  by (simp add: close_current_def close_part_def split: option.splits)

lemma part_of_section_detection: "part_of (section_detection t s) = section_part t (part_of s)"
  by (simp add: part_of_def section_detection_def section_part_def Let_def of_section_close_current
      split: option.splits)

lemma part_of_frames:
  "part_of (flow_state (header_block ln t s)) = part_of s"
  "part_of (flow_state (slug_line t s)) = part_of s"
  "part_of (flow_state (header_block_again t s)) = part_of s"
  "part_of (subsection_detection t s) = part_of s"
  "part_of (flow_state (add_content t s)) = part_of s"
  "part_of (detect_inline_code ln s) = part_of s"
  "part_of (detect_code_block t s) = part_of s"
  "part_of (extract_references t s) = part_of s"
  by (simp_all add: part_of_def)

lemma flow_cases:
  obtains a where "fl = Thrown a" "flow_state fl = a" | a where "fl = Continue a" "flow_state fl = a"
    | a where "fl = Proceed a" "flow_state fl = a"
  by (cases fl) simp_all

lemma after_header_part:
  "part_of (flow_state (after_header ln t s)) = part_of s
   \<or> part_of (flow_state (after_header ln t s)) = abstract_part ln t (part_of s)
   \<or> part_of (flow_state (after_header ln t s)) = section_part t (abstract_part ln t (part_of s))"
proof (cases "slug_line t s" rule: flow_cases)
  case (1 a)
  then have "part_of (flow_state (after_header ln t s)) = part_of (flow_state (slug_line t s))"
    by (simp add: after_header_def)
  then show ?thesis by (simp add: part_of_frames)
next
  case (2 a)
  then have "part_of (flow_state (after_header ln t s)) = part_of (flow_state (slug_line t s))"
    by (simp add: after_header_def)
  then show ?thesis by (simp add: part_of_frames)
next
  case (3 a)
  have pa: "part_of a = part_of s" using 3(2)[symmetric] by (simp add: part_of_frames)
  let ?b = "abstract_block ln t a"
  have pb: "part_of ?b = abstract_part ln t (part_of s)" by (simp add: part_of_abstract_block pa)
  show ?thesis
  proof (cases "header_block_again t ?b" rule: flow_cases)
    case (1 c)
    with 3 have "flow_state (after_header ln t s) = flow_state (header_block_again t ?b)"
      by (simp add: after_header_def)
    then show ?thesis by (simp add: part_of_frames pb)
  next
    case (2 c)
    with 3 have "flow_state (after_header ln t s) = flow_state (header_block_again t ?b)"
      by (simp add: after_header_def)
    then show ?thesis by (simp add: part_of_frames pb)
  next
    case (3 c)
    have pc: "part_of c = part_of ?b" using 3(2)[symmetric] by (simp add: part_of_frames)
    from 3 \<open>slug_line t s = Proceed a\<close>
    have "flow_state (after_header ln t s)
          = flow_state (add_content t (subsection_detection t (section_detection t c)))"
      by (simp add: after_header_def)
    then have "part_of (flow_state (after_header ln t s)) = section_part t (part_of c)"
      by (simp add: part_of_frames part_of_section_detection)
    then show ?thesis by (simp add: pc pb)
  qed
qed

lemma part_of_next: "part_of (s\<lparr>lineIdx := Suc (lineIdx s)\<rparr>) = next_line (part_of s)"
  by (simp add: part_of_def next_line_def)

lemma step_part:
  "part_of (flow_state (step ln s)) = next_line (part_of s)
   \<or> part_of (flow_state (step ln s)) = abstract_part ln (trim ln) (next_line (part_of s))
   \<or> part_of (flow_state (step ln s)) = section_part (trim ln) (abstract_part ln (trim ln) (next_line (part_of s)))"
proof -
  let ?t = "trim ln"
  let ?s1 = "s\<lparr>lineIdx := Suc (lineIdx s)\<rparr>"
  let ?s2 = "detect_inline_code ln (detect_code_block ?t (extract_references ?t ?s1))"
  have p2: "part_of ?s2 = next_line (part_of s)"
    by (simp add: part_of_frames part_of_next)
  show ?thesis
  proof (cases "CHR 0x0C \<in> set ln \<or> ?t = []")
    case True
    then have "part_of (flow_state (step ln s)) = next_line (part_of s)"
      by (auto simp: step_def Let_def part_of_def next_line_def)
    then show ?thesis by simp
  next
    case False
    then have st: "step ln s = (case header_block ln ?t ?s2 of Thrown a \<Rightarrow> Thrown a | Continue a \<Rightarrow> Continue a
                                 | Proceed a \<Rightarrow> after_header ln ?t a)"
      by (simp add: step_def Let_def)
    show ?thesis
    proof (cases "header_block ln ?t ?s2" rule: flow_cases)
      case (1 a)
      with st have "flow_state (step ln s) = flow_state (header_block ln ?t ?s2)" by simp
      then have "part_of (flow_state (step ln s)) = part_of ?s2" by (simp add: part_of_frames)
      with p2 show ?thesis by simp
    next
      case (2 a)
      with st have "flow_state (step ln s) = flow_state (header_block ln ?t ?s2)" by simp
      then have "part_of (flow_state (step ln s)) = part_of ?s2" by (simp add: part_of_frames)
      with p2 show ?thesis by simp
    next
      case (3 a)
      have "part_of a = part_of ?s2" using 3(2)[symmetric] by (simp add: part_of_frames)
      with p2 have pa: "part_of a = next_line (part_of s)" by simp
      from 3 st have "flow_state (step ln s) = flow_state (after_header ln ?t a)" by simp
      with after_header_part[of ln ?t a] pa show ?thesis by simp
    qed
  qed
qed

lemma openings_snoc:
  "openings (lns @ [ln]) k = openings lns k + (if opens_section ln k then 1 else 0)"
  by (simp add: openings_def)

lemma marker_inv_mono:
  "marker_inv idx n c m \<Longrightarrow> n \<le> n' \<Longrightarrow> idx \<le> idx' \<Longrightarrow> (c' \<longrightarrow> c) \<Longrightarrow> marker_inv idx' n' c' m"
  by (auto simp: marker_inv_def)

lemma part_inv_next:
  assumes "part_inv lns (M, cur, idx)" and "cur' = cur \<or> cur' = None"
  shows "part_inv (lns @ [ln]) (M, cur', idx + 1)"
  unfolding part_inv_def
proof (clarify)
  fix k
  from assms(1) have k: "marker_inv idx (openings lns k) (cur = Some k) (M k)"
    by (simp add: part_inv_def)
  show "marker_inv (idx + 1) (openings (lns @ [ln]) k) (cur' = Some k) (M k)"
    using marker_inv_mono[OF k, of "openings (lns @ [ln]) k" "idx + 1" "cur' = Some k"] assms(2)
    by (auto simp: openings_snoc)
qed

lemma marker_inv_close:
  "marker_inv idx n c m \<Longrightarrow> 1 \<le> start m \<Longrightarrow> marker_inv idx n c (m\<lparr>endLine := idx, closed := True\<rparr>)"
  by (auto simp: marker_inv_def)

lemma part_inv_close:
  assumes "part_inv lns (M, cur, idx)"
  shows "part_inv lns (close_part idx M cur, cur, idx)"
  unfolding part_inv_def
proof (clarify)
  fix k
  from assms have k: "marker_inv idx (openings lns k) (cur = Some k) (M k)"
    by (simp add: part_inv_def)
  show "marker_inv idx (openings lns k) (cur = Some k) (close_part idx M cur k)"
  proof (cases "cur = Some k \<and> \<not> closed (M k)")
    case True
    with k have "1 \<le> start (M k)" by (simp add: marker_inv_def)
    from marker_inv_close[OF k this] True show ?thesis by (simp add: close_part_def)
  next
    case False
    then have "close_part idx M cur k = M k" by (auto simp: close_part_def split: option.splits)
    with k show ?thesis by simp
  qed
qed

lemma part_inv_close_abstract:
  assumes "part_inv lns (M, cur, idx)" and "start (M abstract) \<noteq> 0"
  shows "part_inv lns (M(abstract := (M abstract)\<lparr>endLine := idx, closed := True\<rparr>), cur, idx)"
  unfolding part_inv_def
proof (clarify)
  fix k
  from assms have k: "marker_inv idx (openings lns k) (cur = Some k) (M k)"
    by (simp add: part_inv_def)
  show "marker_inv idx (openings lns k) (cur = Some k)
          ((M(abstract := (M abstract)\<lparr>endLine := idx, closed := True\<rparr>)) k)"
  proof (cases "k = abstract")
    case True
    with assms(2) have "1 \<le> start (M k)" by simp
    from marker_inv_close[OF k this] True show ?thesis by simp
  next
    case False
    with k show ?thesis by simp
  qed
qed

lemma marker_inv_open:
  "marker_inv idx n c m \<Longrightarrow> marker_inv (idx + 1) (n + 1) True (m\<lparr>start := idx + 1\<rparr>)"
  by (auto simp: marker_inv_def)

lemma part_inv_open:
  assumes "part_inv lns (M, cur, idx)" and "opens_section ln j"
  shows "part_inv (lns @ [ln]) (M(j := (M j)\<lparr>start := idx + 1\<rparr>), Some j, idx + 1)"
  unfolding part_inv_def
proof (clarify)
  fix k
  from assms have k: "marker_inv idx (openings lns k) (cur = Some k) (M k)"
    by (simp add: part_inv_def)
  show "marker_inv (idx + 1) (openings (lns @ [ln]) k) (Some j = Some k)
          ((M(j := (M j)\<lparr>start := idx + 1\<rparr>)) k)"
  proof (cases "k = j")
    case True
    with marker_inv_open[OF k] assms(2) show ?thesis by (simp add: openings_snoc)
  next
    case False
    have "marker_inv (idx + 1) (openings (lns @ [ln]) k) False (M k)"
      using marker_inv_mono[OF k, of "openings (lns @ [ln]) k" "idx + 1" False]
      by (auto simp: openings_snoc)
    with False show ?thesis by auto
  qed
qed

lemma Abstract_is_no_heading: "\<not> is_section_heading ''Abstract''"
  by code_simp

lemma abstract_part_cases:
  assumes "part_inv lns (M, cur, idx)"
  shows "(t = ''Abstract'' \<and> abstract_part ln t (M, cur, idx + 1)
            = (M(abstract := (M abstract)\<lparr>start := idx + 1\<rparr>), Some abstract, idx + 1))
       \<or> (t \<noteq> ''Abstract'' \<and> (\<exists>M'. abstract_part ln t (M, cur, idx + 1) = (M', cur, idx + 1)
              \<and> part_inv lns (M', cur, idx)))"
proof (cases "t = ''Abstract''")
  case True
  then show ?thesis by (simp add: abstract_part_def)
next
  case False
  show ?thesis
  proof (cases "start (M abstract) \<noteq> 0 \<and> \<not> closed (M abstract)
                \<and> (startsWith t ''Status of'' \<or> \<not> startsWith ln ''  '')")
    case True
    then have "abstract_part ln t (M, cur, idx + 1)
               = (M(abstract := (M abstract)\<lparr>endLine := idx, closed := True\<rparr>), cur, idx + 1)"
      using False by (simp add: abstract_part_def)
    moreover have "part_inv lns (M(abstract := (M abstract)\<lparr>endLine := idx, closed := True\<rparr>), cur, idx)"
      using assms True by (intro part_inv_close_abstract) auto
    ultimately show ?thesis using False by blast
  next
    case c: False
    then have "abstract_part ln t (M, cur, idx + 1) = (M, cur, idx + 1)"
      using False by (auto simp: abstract_part_def)
    with assms False show ?thesis by blast
  qed
qed

lemma section_part_inv:
  assumes "part_inv lns (M, cur, idx)" and "is_section_heading (trim ln)"
  shows "part_inv (lns @ [ln]) (section_part (trim ln) (M, cur, idx + 1))"
proof -
  let ?C = "close_part idx M cur"
  have c: "part_inv lns (?C, cur, idx)" using assms(1) by (rule part_inv_close)
  show ?thesis
  proof (cases "sectionMatchers (trim ln)")
    case None
    then have "section_part (trim ln) (M, cur, idx + 1) = (?C, None, idx + 1)"
      using assms(2) by (simp add: section_part_def)
    moreover have "part_inv (lns @ [ln]) (?C, None, idx + 1)"
      using c by (rule part_inv_next) simp
    ultimately show ?thesis by simp
  next
    case (Some j)
    then have "section_part (trim ln) (M, cur, idx + 1) = (?C(j := (?C j)\<lparr>start := idx + 1\<rparr>), Some j, idx + 1)"
      using assms(2) by (simp add: section_part_def)
    moreover have "opens_section ln j" using Some assms(2) by (simp add: opens_section_def)
    then have "part_inv (lns @ [ln]) (?C(j := (?C j)\<lparr>start := idx + 1\<rparr>), Some j, idx + 1)"
      using c by (intro part_inv_open)
    ultimately show ?thesis by simp
  qed
qed

lemma step_part_inv:
  assumes "part_inv lns (part_of s)"
  shows "part_inv (lns @ [ln]) (part_of (flow_state (step ln s)))"
proof -
  obtain M cur idx where p: "part_of s = (M, cur, idx)" by (cases "part_of s")
  with assms have inv: "part_inv lns (M, cur, idx)" by simp
  have n: "next_line (part_of s) = (M, cur, idx + 1)" by (simp add: p next_line_def)
  have next_ok: "part_inv (lns @ [ln]) (M, cur, idx + 1)"
    using inv by (rule part_inv_next) simp
  have abs_ok: "part_inv (lns @ [ln]) (abstract_part ln (trim ln) (M, cur, idx + 1))"
    and sec_ok: "part_inv (lns @ [ln]) (section_part (trim ln) (abstract_part ln (trim ln) (M, cur, idx + 1)))"
  proof -
    from abstract_part_cases[OF inv, of "trim ln" ln]
    consider (opened) "trim ln = ''Abstract''"
        "abstract_part ln (trim ln) (M, cur, idx + 1)
           = (M(abstract := (M abstract)\<lparr>start := idx + 1\<rparr>), Some abstract, idx + 1)"
      | (other) M' where "trim ln \<noteq> ''Abstract''"
        "abstract_part ln (trim ln) (M, cur, idx + 1) = (M', cur, idx + 1)" "part_inv lns (M', cur, idx)"
      by blast
    then have "part_inv (lns @ [ln]) (abstract_part ln (trim ln) (M, cur, idx + 1))
      \<and> part_inv (lns @ [ln]) (section_part (trim ln) (abstract_part ln (trim ln) (M, cur, idx + 1)))"
    proof cases
      case opened
      have o: "opens_section ln abstract" using opened(1) by (simp add: opens_section_def)
      have a: "part_inv (lns @ [ln]) (M(abstract := (M abstract)\<lparr>start := idx + 1\<rparr>), Some abstract, idx + 1)"
        using inv o by (rule part_inv_open)
      have "\<not> is_section_heading (trim ln)" using opened(1) Abstract_is_no_heading by simp
      then have "section_part (trim ln) (abstract_part ln (trim ln) (M, cur, idx + 1))
                 = abstract_part ln (trim ln) (M, cur, idx + 1)"
        by (simp add: section_part_def split: prod.splits)
      with a opened(2) show ?thesis by simp
    next
      case other
      have a: "part_inv (lns @ [ln]) (M', cur, idx + 1)"
        using other(3) by (rule part_inv_next) simp
      have "part_inv (lns @ [ln]) (section_part (trim ln) (M', cur, idx + 1))"
      proof (cases "is_section_heading (trim ln)")
        case True
        with other(3) show ?thesis by (rule section_part_inv)
      next
        case False
        then have "section_part (trim ln) (M', cur, idx + 1) = (M', cur, idx + 1)"
          by (simp add: section_part_def)
        with a show ?thesis by simp
      qed
      with a other(2) show ?thesis by simp
    qed
    then show "part_inv (lns @ [ln]) (abstract_part ln (trim ln) (M, cur, idx + 1))"
      and "part_inv (lns @ [ln]) (section_part (trim ln) (abstract_part ln (trim ln) (M, cur, idx + 1)))"
      by simp_all
  qed
  from step_part[of ln s] show ?thesis
    unfolding n using next_ok abs_ok sec_ok by auto
qed

lemma part_inv_initial: "part_inv [] (part_of (initial_state rs))"
  by (simp add: part_inv_def part_of_def initial_state_def marker_inv_def)

lemma run_lines_part_inv:
  "\<not> is_thrown (run_lines lns s) \<Longrightarrow> part_inv seen (part_of s)
   \<Longrightarrow> part_inv (seen @ lns) (part_of (flow_state (run_lines lns s)))"
proof (induction lns arbitrary: s seen)
  case Nil
  then show ?case by simp
next
  case (Cons ln lns)
  let ?s1 = "flow_state (step ln s)"
  from run_lines_step[OF Cons.prems(1)]
  have run: "run_lines (ln # lns) s = run_lines lns ?s1" and nt: "\<not> is_thrown (run_lines lns ?s1)"
    using Cons.prems(1) by auto
  have "part_inv (seen @ [ln]) (part_of ?s1)" using Cons.prems(2) by (rule step_part_inv)
  from Cons.IH[OF nt this] show ?case unfolding run by simp
qed

lemma abstract_part_idx: "snd (snd (abstract_part ln t p)) = snd (snd p)"
  by (cases p) (simp add: abstract_part_def)

lemma section_part_idx: "snd (snd (section_part t p)) = snd (snd p)"
  by (cases p) (simp add: section_part_def split: option.splits)

lemma step_lineIdx: "lineIdx (flow_state (step ln s)) = lineIdx s + 1"
proof -
  have "snd (snd (part_of (flow_state (step ln s)))) = snd (snd (next_line (part_of s)))"
    using step_part[of ln s] by (auto simp: abstract_part_idx section_part_idx)
  then show ?thesis by (simp add: part_of_def next_line_def)
qed

lemma run_lines_lineIdx:
  "\<not> is_thrown (run_lines lns s) \<Longrightarrow> lineIdx (flow_state (run_lines lns s)) = lineIdx s + length lns"
proof (induction lns arbitrary: s)
  case Nil
  then show ?case by simp
next
  case (Cons ln lns)
  let ?s1 = "flow_state (step ln s)"
  from run_lines_step[OF Cons.prems(1)]
  have run: "run_lines (ln # lns) s = run_lines lns ?s1" and nt: "\<not> is_thrown (run_lines lns ?s1)"
    using Cons.prems(1) by auto
  from Cons.IH[OF nt] show ?case unfolding run by (simp add: step_lineIdx)
qed

lemma parse_returns:
  assumes "fst (parse rs rawText fname) = Inr doc"
  shows "\<not> is_thrown (loop_end rs rawText)"
    and "parsed doc = data (flow_state (loop_end rs rawText))"
    and "of_section (parsed_markers doc)
           = close_part (lineIdx (flow_state (loop_end rs rawText)))
               (of_section (markers (flow_state (loop_end rs rawText))))
               (currentSection (flow_state (loop_end rs rawText)))"
  using assms
  by (cases "run_lines (split_on (CHR 0x0A) rawText) (initial_state rs)";
      auto simp: parse_def loop_end_def Let_def of_section_close_current close_current_def update_marker_def
           close_part_def split: option.splits)+

lemma abstract_part_closes:
  assumes "abstract_part ln t (M, cur, Suc idx) = (M', cur', idx')" "\<not> closed (M k)" "closed (M' k)"
  shows "k = abstract \<and> t \<noteq> ''Abstract'' \<and> (startsWith t ''Status of'' \<or> \<not> startsWith ln ''  '')
         \<and> endLine (M' k) = idx"
  using assms by (auto simp: abstract_part_def split: if_splits)

lemma abstract_part_current:
  assumes "abstract_part ln t (M, cur, idx) = (M', cur', idx')" "t \<noteq> ''Abstract''"
  shows "cur' = cur \<and> idx' = idx"
  using assms by (auto simp: abstract_part_def split: if_splits)

lemma section_part_closes:
  assumes "section_part t (M, cur, Suc idx) = (M', cur', idx')" "\<not> closed (M k)" "closed (M' k)"
  shows "is_section_heading t \<and> cur = Some k \<and> endLine (M' k) = idx"
  using assms by (auto simp: section_part_def close_part_def split: if_splits option.splits)

lemma section_part_closed:
  assumes "section_part t (M, cur, idx) = (M', cur', idx')" "closed (M k)"
  shows "closed (M' k) \<and> endLine (M' k) = endLine (M k)"
  using assms by (auto simp: section_part_def close_part_def split: if_splits option.splits)

lemma step_closes:
  assumes "\<not> closed (of_section (markers s) k)"
    and "closed (of_section (markers (flow_state (step ln s))) k)"
  shows "endLine (of_section (markers (flow_state (step ln s))) k) = lineIdx s
         \<and> ((is_section_heading (trim ln) \<and> currentSection s = Some k)
            \<or> (k = abstract \<and> trim ln \<noteq> ''Abstract''
                \<and> (startsWith (trim ln) ''Status of'' \<or> \<not> startsWith ln ''  '')))"
proof -
  let ?M = "of_section (markers s)"
  let ?M' = "of_section (markers (flow_state (step ln s)))"
  let ?p = "(?M, currentSection s, Suc (lineIdx s))"
  have n: "next_line (part_of s) = ?p" by (simp add: part_of_def next_line_def)
  obtain M1 cur1 idx1 where a: "abstract_part ln (trim ln) ?p = (M1, cur1, idx1)"
    by (cases "abstract_part ln (trim ln) ?p")
  have i1: "idx1 = Suc (lineIdx s)" using abstract_part_idx[of ln "trim ln" ?p] a by simp
  obtain M2 cur2 idx2 where b: "section_part (trim ln) (M1, cur1, Suc (lineIdx s)) = (M2, cur2, idx2)"
    by (cases "section_part (trim ln) (M1, cur1, Suc (lineIdx s))")
  have p: "part_of (flow_state (step ln s)) = (?M', currentSection (flow_state (step ln s)), lineIdx (flow_state (step ln s)))"
    by (simp add: part_of_def)
  from step_part[of ln s] consider
      (skip) "?M' = ?M" | (abs) "?M' = M1" | (sec) "?M' = M2"
    unfolding n p a i1 b by auto
  then show ?thesis
  proof cases
    case skip
    with assms show ?thesis by simp
  next
    case abs
    from assms(2) abs have "closed (M1 k)" by simp
    from abstract_part_closes[OF a assms(1) this] abs show ?thesis by auto
  next
    case sec
    show ?thesis
    proof (cases "closed (M1 k)")
      case True
      from abstract_part_closes[OF a assms(1) True] section_part_closed[OF b True] sec
      show ?thesis by auto
    next
      case False
      from assms(2) sec have c2: "closed (M2 k)" by simp
      from section_part_closes[OF b False c2]
      have h: "is_section_heading (trim ln)" and c: "cur1 = Some k" and e: "endLine (M2 k) = lineIdx s"
        by simp_all
      from h Abstract_is_no_heading have "trim ln \<noteq> ''Abstract''" by auto
      from abstract_part_current[OF a this] c have "currentSection s = Some k" by simp
      with h e sec show ?thesis by simp
    qed
  qed
qed

lemma parse_marker_inv:
  assumes "fst (parse rs rawText fname) = Inr doc"
  shows "marker_inv (length (split_on (CHR 0x0A) rawText)) (openings (split_on (CHR 0x0A) rawText) k)
           (currentSection (flow_state (loop_end rs rawText)) = Some k) (of_section (parsed_markers doc) k)"
proof -
  let ?lns = "split_on (CHR 0x0A) rawText"
  let ?sF = "flow_state (loop_end rs rawText)"
  have nt: "\<not> is_thrown (run_lines ?lns (initial_state rs))"
    using parse_returns(1)[OF assms] by (simp add: loop_end_def)
  have idx: "lineIdx ?sF = length ?lns"
    using run_lines_lineIdx[OF nt] by (simp add: loop_end_def initial_state_def)
  have "part_inv ([] @ ?lns) (part_of ?sF)"
    unfolding loop_end_def using nt part_inv_initial by (rule run_lines_part_inv)
  then have "part_inv ?lns (of_section (markers ?sF), currentSection ?sF, length ?lns)"
    by (simp add: part_of_def idx)
  then have "part_inv ?lns (close_part (length ?lns) (of_section (markers ?sF)) (currentSection ?sF),
               currentSection ?sF, length ?lns)"
    by (rule part_inv_close)
  then show ?thesis
    unfolding parse_returns(3)[OF assms] idx by (simp add: part_inv_def)
qed

lemma parse_closes_at_end:
  assumes "fst (parse rs rawText fname) = Inr doc"
    and "\<not> closed (of_section (markers (flow_state (loop_end rs rawText))) k)"
    and "closed (of_section (parsed_markers doc) k)"
  shows "endLine (of_section (parsed_markers doc) k) = length (split_on (CHR 0x0A) rawText)
         \<and> currentSection (flow_state (loop_end rs rawText)) = Some k"
proof -
  let ?lns = "split_on (CHR 0x0A) rawText"
  let ?sF = "flow_state (loop_end rs rawText)"
  have nt: "\<not> is_thrown (run_lines ?lns (initial_state rs))"
    using parse_returns(1)[OF assms(1)] by (simp add: loop_end_def)
  have idx: "lineIdx ?sF = length ?lns"
    using run_lines_lineIdx[OF nt] by (simp add: loop_end_def initial_state_def)
  from assms(2,3) show ?thesis
    unfolding parse_returns(3)[OF assms(1)] idx
    by (auto simp: close_part_def split: option.splits if_splits)
qed

lemma foldl_add_rfc_outside:
  assumes "cur \<noteq> Some references" "\<forall>n \<in> set ns. n \<noteq> []"
  shows "referenceSectionRfc (foldl (add_rfc_reference cur sub) el ns) = referenceSectionRfc el
       \<and> (\<exists>new. nonReferenceSectionRfc (foldl (add_rfc_reference cur sub) el ns) = nonReferenceSectionRfc el @ new
             \<and> appended_numbers (nonReferenceSectionRfc el) ns new)"
  using assms(2)
proof (induction ns arbitrary: el)
  case Nil
  then show ?case by (simp add: appended_numbers_def)
next
  case (Cons n ns)
  let ?el1 = "add_rfc_reference cur sub el n"
  from Cons.prems have n: "n \<noteq> []" and ns: "\<forall>n \<in> set ns. n \<noteq> []" by auto
  from Cons.IH[OF ns, of ?el1] obtain new where
    r: "referenceSectionRfc (foldl (add_rfc_reference cur sub) ?el1 ns) = referenceSectionRfc ?el1" and
    a: "nonReferenceSectionRfc (foldl (add_rfc_reference cur sub) ?el1 ns) = nonReferenceSectionRfc ?el1 @ new" and
    d: "distinct new" and m: "set new = set ns - set (nonReferenceSectionRfc ?el1)"
    by (auto simp: appended_numbers_def)
  have r1: "referenceSectionRfc ?el1 = referenceSectionRfc el"
    using assms(1) by (simp add: add_rfc_reference_def)
  show ?case
  proof (cases "n \<in> set (nonReferenceSectionRfc el)")
    case True
    then have e: "nonReferenceSectionRfc ?el1 = nonReferenceSectionRfc el"
      using assms(1) by (simp add: add_rfc_reference_def)
    have "set new = set (n # ns) - set (nonReferenceSectionRfc el)"
      using m True unfolding e by auto
    with r r1 a d e show ?thesis by (simp add: appended_numbers_def)
  next
    case False
    then have e: "nonReferenceSectionRfc ?el1 = nonReferenceSectionRfc el @ [n]"
      using assms(1) n by (simp add: add_rfc_reference_def)
    have "n \<notin> set new" using m unfolding e by auto
    moreover have "set (n # new) = set (n # ns) - set (nonReferenceSectionRfc el)"
      using m False unfolding e by auto
    ultimately have "appended_numbers (nonReferenceSectionRfc el) (n # ns) (n # new)"
      using d by (simp add: appended_numbers_def)
    moreover have "nonReferenceSectionRfc (foldl (add_rfc_reference cur sub) el (n # ns))
                   = nonReferenceSectionRfc el @ (n # new)"
      using a e by simp
    ultimately show ?thesis using r r1 by (intro conjI exI[of _ "n # new"]) simp_all
  qed
qed

lemma foldl_add_rfc_inside:
  assumes "\<forall>n \<in> set ns. n \<noteq> []"
  shows "nonReferenceSectionRfc (foldl (add_rfc_reference (Some references) sub) el ns) = nonReferenceSectionRfc el
       \<and> (\<exists>new. referenceSectionRfc (foldl (add_rfc_reference (Some references) sub) el ns)
                    = referenceSectionRfc el @ new
             \<and> appended_numbers (map ref_value (referenceSectionRfc el)) ns (map ref_value new)
             \<and> list_all (\<lambda>e. ref_subsection e = sub) new)"
  using assms
proof (induction ns arbitrary: el)
  case Nil
  then show ?case by (simp add: appended_numbers_def)
next
  case (Cons n ns)
  let ?f = "add_rfc_reference (Some references) sub"
  let ?el1 = "?f el n"
  from Cons.prems have n: "n \<noteq> []" and ns: "\<forall>n \<in> set ns. n \<noteq> []" by auto
  from Cons.IH[OF ns, of ?el1] obtain new where
    r: "nonReferenceSectionRfc (foldl ?f ?el1 ns) = nonReferenceSectionRfc ?el1" and
    a: "referenceSectionRfc (foldl ?f ?el1 ns) = referenceSectionRfc ?el1 @ new" and
    d: "distinct (map ref_value new)" and
    m: "set (map ref_value new) = set ns - set (map ref_value (referenceSectionRfc ?el1))" and
    t: "list_all (\<lambda>e. ref_subsection e = sub) new"
    by (auto simp: appended_numbers_def)
  have r1: "nonReferenceSectionRfc ?el1 = nonReferenceSectionRfc el"
    by (simp add: add_rfc_reference_def)
  show ?case
  proof (cases "n \<in> set (map ref_value (referenceSectionRfc el))")
    case True
    then have e: "referenceSectionRfc ?el1 = referenceSectionRfc el"
      by (auto simp: add_rfc_reference_def list_ex_iff)
    have "set (map ref_value new) = set (n # ns) - set (map ref_value (referenceSectionRfc el))"
      using m True unfolding e by auto
    with r r1 a d e t show ?thesis by (simp add: appended_numbers_def)
  next
    case False
    let ?e = "\<lparr>ref_value = n, ref_subsection = sub\<rparr>"
    from False have e: "referenceSectionRfc ?el1 = referenceSectionRfc el @ [?e]"
      using n by (auto simp: add_rfc_reference_def list_ex_iff)
    have "n \<notin> set (map ref_value new)" using m unfolding e by auto
    moreover have "set (map ref_value (?e # new)) = set (n # ns) - set (map ref_value (referenceSectionRfc el))"
      using m False unfolding e by auto
    ultimately have "appended_numbers (map ref_value (referenceSectionRfc el)) (n # ns) (map ref_value (?e # new))"
      using d by (simp add: appended_numbers_def)
    moreover have "referenceSectionRfc (foldl ?f el (n # ns)) = referenceSectionRfc el @ (?e # new)"
      using a e by simp
    moreover have "list_all (\<lambda>e. ref_subsection e = sub) (?e # new)" using t by simp
    ultimately show ?thesis using r r1 by (intro conjI exI[of _ "?e # new"]) simp_all
  qed
qed

lemma foldl_add_draft_buckets:
  "nonReferenceSectionRfc (foldl (add_draft_reference cur sub) el ds) = nonReferenceSectionRfc el
   \<and> referenceSectionRfc (foldl (add_draft_reference cur sub) el ds) = referenceSectionRfc el"
  by (induction ds arbitrary: el) (simp_all add: add_draft_reference_def)

lemma line_elements_buckets:
  "nonReferenceSectionRfc (line_elements ln s)
     = nonReferenceSectionRfc (foldl (add_rfc_reference (currentSection s) (currentSubSection s))
         (extractedElements (data s)) (if CHR 0x0C \<in> set ln then [] else rfc_reference_matches (trim ln)))
   \<and> referenceSectionRfc (line_elements ln s)
     = referenceSectionRfc (foldl (add_rfc_reference (currentSection s) (currentSubSection s))
         (extractedElements (data s)) (if CHR 0x0C \<in> set ln then [] else rfc_reference_matches (trim ln)))"
  by (simp add: line_elements_def extract_references_def Let_def foldl_add_draft_buckets trim_Nil_matches)

lemma sample_text_parses: "\<not> isl (fst (parse fresh_regexes sample_text ''f''))"
  by code_simp

text \<open>
  Claim C3 (a text parsed twice gives the same document: no state is carried over from
  one call of \<^verbatim>\<open>parse\<close> to the next) fails on the code. INLINE_CODE_FORMAT carries the
  flag \<^verbatim>\<open>g\<close> and is used with \<^verbatim>\<open>exec\<close>, which starts at \<^verbatim>\<open>lastIndex\<close> and leaves it behind.
  On the one-line text \<^verbatim>\<open>A  /*\<close> a first call reports inline code at line 1, position 4,
  and leaves \<^verbatim>\<open>lastIndex\<close> at 5; a second call on the same text searches from there and
  reports nothing.
\<close>

theorem parse_twice_differs:
  "map_sum id (\<lambda>d. inlineCode (parsed d)) (fst (parse fresh_regexes ''A  /*'' ''f''))
     = Inr [\<lparr>at_line = 1, at_pos = 4\<rparr>]
   \<and> snd (parse fresh_regexes ''A  /*'' ''f'')
     = \<lparr>INLINE_CODE_FORMAT_lastIndex = 5, SUBSECTION_PATTERN_lastIndex = 0\<rparr>
   \<and> map_sum id (\<lambda>d. inlineCode (parsed d))
       (fst (parse (snd (parse fresh_regexes ''A  /*'' ''f'')) ''A  /*'' ''f''))
     = Inr []"
  by code_simp

text \<open>
  Claim C6 (the first line \<^verbatim>\<open>Short Source\<close>, a run of spaces, \<^verbatim>\<open>J. Doe\<close> gives the source
  \<^verbatim>\<open>Short Source\<close> exactly and the one author \<^verbatim>\<open>J. Doe\<close>) fails on the code: the group
  \<^verbatim>\<open>left\<close> of LINE_VALUES_EXTRACT_RE is greedy and gives back two spaces only. With the
  twenty spaces of the example the source ends with eighteen spaces; the authors are
  as the claim says.
\<close>

theorem header_source_keeps_spaces:
  "map_sum id (\<lambda>d. (source (header (parsed d)), authors (header (parsed d))))
     (fst (parse fresh_regexes ''Short Source                    J. Doe'' ''f''))
   = Inr (Some ''Short Source                  '', [\<lparr>author_name = ''J. Doe'', org = None\<rparr>])"
  by code_simp

text \<open>
  Claim C7, as the claim states it, fails: the bucket outside the references section is
  deduplicated as well. The third line of the sample text holds the match \<^verbatim>\<open>1\<close> twice,
  outside the references section, and the number is kept once, by the line and by the
  whole parse. A line with a page break is skipped before any match is looked for.
\<close>

theorem rfc_reference_outside_kept_once:
  "rfc_reference_matches (trim ''RFC 1, RFC 1'') = [''1'', ''1'']
   \<and> currentSection (state_after 2 sample_text) = None
   \<and> nonReferenceSectionRfc (elements_after ''RFC 1, RFC 1'' (state_after 2 sample_text)) = [''1'']
   \<and> map_sum id (\<lambda>d. nonReferenceSectionRfc (extractedElements (parsed d)))
        (fst (parse fresh_regexes sample_text ''f'')) = Inr [''1'']
   \<and> rfc_reference_matches (trim (''RFC 7'' @ [CHR 0x0C])) = [''7'']
   \<and> map_sum id (\<lambda>d. (nonReferenceSectionRfc (extractedElements (parsed d)),
                        referenceSectionRfc (extractedElements (parsed d))))
        (fst (parse fresh_regexes (''A  B\<newline>RFC 7'' @ [CHR 0x0C]) ''f'')) = Inr ([], [])"
  by code_simp

text \<open>
  Claim C7, amended. When a line without a page break is read, the matches of the RFC
  pattern on the trimmed line go to the bucket of the current section: in the
  references section the other bucket is left alone and the reference bucket is
  extended by one entry for each number matched that it did not hold, once, tagged with
  the current subsection; outside, the same holds of the other bucket, without tags.
  A line with a page break leaves the extracted elements as they are. In the document
  that a parse returns no number stands twice in a bucket, and every match of every
  line without a page break is in one of the two.
\<close>

theorem rfc_references_bucketed:
  "(CHR 0x0C \<notin> set ln \<and> currentSection s = Some references \<longrightarrow>
      nonReferenceSectionRfc (elements_after ln s) = nonReferenceSectionRfc (extractedElements (data s))
      \<and> (\<exists>new. referenceSectionRfc (elements_after ln s) = referenceSectionRfc (extractedElements (data s)) @ new
            \<and> appended_numbers (map ref_value (referenceSectionRfc (extractedElements (data s))))
                 (rfc_reference_matches (trim ln)) (map ref_value new)
            \<and> list_all (\<lambda>e. ref_subsection e = currentSubSection s) new))
   \<and> (CHR 0x0C \<notin> set ln \<and> currentSection s \<noteq> Some references \<longrightarrow>
      referenceSectionRfc (elements_after ln s) = referenceSectionRfc (extractedElements (data s))
      \<and> (\<exists>new. nonReferenceSectionRfc (elements_after ln s) = nonReferenceSectionRfc (extractedElements (data s)) @ new
            \<and> appended_numbers (nonReferenceSectionRfc (extractedElements (data s)))
                 (rfc_reference_matches (trim ln)) new))
   \<and> (CHR 0x0C \<in> set ln \<longrightarrow> elements_after ln s = extractedElements (data s))
   \<and> (fst (parse rs rawText fname) = Inr doc \<longrightarrow>
        distinct (nonReferenceSectionRfc (extractedElements (parsed doc)))
      \<and> distinct (map ref_value (referenceSectionRfc (extractedElements (parsed doc))))
      \<and> (\<forall>l \<in> set (split_on (CHR 0x0A) rawText). CHR 0x0C \<notin> set l \<longrightarrow>
            set (rfc_reference_matches (trim l)) \<subseteq> rfc_numbers (extractedElements (parsed doc))))"
proof (intro conjI impI)
  let ?el = "extractedElements (data s)"
  let ?ms = "rfc_reference_matches (trim ln)"
  have ne: "\<forall>n \<in> set ?ms. n \<noteq> []" by (rule rfc_reference_matches_nonempty)
  have after: "elements_after ln s = line_elements ln s"
    by (simp add: elements_after_def step_elements)
  {
    assume a: "CHR 0x0C \<notin> set ln \<and> currentSection s = Some references"
    from foldl_add_rfc_inside[OF ne, of "currentSubSection s" ?el] a
    show "nonReferenceSectionRfc (elements_after ln s) = nonReferenceSectionRfc ?el"
      and "\<exists>new. referenceSectionRfc (elements_after ln s) = referenceSectionRfc ?el @ new
            \<and> appended_numbers (map ref_value (referenceSectionRfc ?el)) ?ms (map ref_value new)
            \<and> list_all (\<lambda>e. ref_subsection e = currentSubSection s) new"
      unfolding after by (simp_all add: line_elements_buckets)
  }
  {
    assume a: "CHR 0x0C \<notin> set ln \<and> currentSection s \<noteq> Some references"
    then have c: "currentSection s \<noteq> Some references" by simp
    from foldl_add_rfc_outside[OF c ne, of "currentSubSection s" ?el] a
    show "referenceSectionRfc (elements_after ln s) = referenceSectionRfc ?el"
      and "\<exists>new. nonReferenceSectionRfc (elements_after ln s) = nonReferenceSectionRfc ?el @ new
            \<and> appended_numbers (nonReferenceSectionRfc ?el) ?ms new"
      unfolding after by (simp_all add: line_elements_buckets)
  }
  {
    assume "CHR 0x0C \<in> set ln"
    then show "elements_after ln s = ?el" unfolding after by (simp add: line_elements_def)
  }
  {
    assume p: "fst (parse rs rawText fname) = Inr doc"
    let ?lns = "split_on (CHR 0x0A) rawText"
    have nt: "\<not> is_thrown (run_lines ?lns (initial_state rs))"
      using parse_returns(1)[OF p] by (simp add: loop_end_def)
    have d0: "rfc_distinct (extractedElements (data (initial_state rs)))"
      by (simp add: rfc_distinct_def initial_state_def)
    have e: "extractedElements (parsed doc) = extractedElements (data (flow_state (run_lines ?lns (initial_state rs))))"
      using parse_returns(2)[OF p] by (simp add: loop_end_def)
    from run_lines_elements[OF nt d0]
    show "distinct (nonReferenceSectionRfc (extractedElements (parsed doc)))"
      and "distinct (map ref_value (referenceSectionRfc (extractedElements (parsed doc))))"
      and "\<forall>l \<in> set ?lns. CHR 0x0C \<notin> set l \<longrightarrow>
            set (rfc_reference_matches (trim l)) \<subseteq> rfc_numbers (extractedElements (parsed doc))"
      unfolding e by (simp_all add: rfc_distinct_def)
  }
qed

theorem rfc_references_bucketed_witness:
  "currentSection (state_after 7 sample_text) = Some references
   \<and> currentSubSection (state_after 7 sample_text) = Some ''normative_references''
   \<and> rfc_reference_matches (trim ''[RFC2]  RFC 2'') = [''2'', ''2'']
   \<and> nonReferenceSectionRfc (elements_after ''[RFC2]  RFC 2'' (state_after 7 sample_text))
       = nonReferenceSectionRfc (extractedElements (data (state_after 7 sample_text)))
   \<and> (\<exists>new. referenceSectionRfc (elements_after ''[RFC2]  RFC 2'' (state_after 7 sample_text))
               = referenceSectionRfc (extractedElements (data (state_after 7 sample_text))) @ new
          \<and> appended_numbers (map ref_value (referenceSectionRfc (extractedElements (data (state_after 7 sample_text)))))
               [''2'', ''2''] (map ref_value new)
          \<and> list_all (\<lambda>e. ref_subsection e = Some ''normative_references'') new)
   \<and> currentSection (state_after 2 sample_text) = None
   \<and> referenceSectionRfc (elements_after ''RFC 1, RFC 1'' (state_after 2 sample_text))
       = referenceSectionRfc (extractedElements (data (state_after 2 sample_text)))
   \<and> elements_after (CHR 0x0C # ''RFC 1'') (state_after 2 sample_text)
       = extractedElements (data (state_after 2 sample_text))
   \<and> distinct (nonReferenceSectionRfc (extractedElements (parsed (projr (fst (parse fresh_regexes sample_text ''f''))))))
   \<and> set (rfc_reference_matches (trim ''RFC 1, RFC 1''))
       \<subseteq> rfc_numbers (extractedElements (parsed (projr (fst (parse fresh_regexes sample_text ''f'')))))"
proof -
  let ?doc = "projr (fst (parse fresh_regexes sample_text ''f''))"
  have inside: "CHR 0x0C \<notin> set ''[RFC2]  RFC 2'' \<and> currentSection (state_after 7 sample_text) = Some references"
    by code_simp
  have sub: "currentSubSection (state_after 7 sample_text) = Some ''normative_references''"
    by code_simp
  have ms: "rfc_reference_matches (trim ''[RFC2]  RFC 2'') = [''2'', ''2'']"
    by code_simp
  have outside: "CHR 0x0C \<notin> set ''RFC 1, RFC 1'' \<and> currentSection (state_after 2 sample_text) = None"
    by code_simp
  have feed: "CHR 0x0C \<in> set (CHR 0x0C # ''RFC 1'')"
    by code_simp
  have p: "fst (parse fresh_regexes sample_text ''f'') = Inr ?doc"
    using sample_text_parses by simp
  have l: "''RFC 1, RFC 1'' \<in> set (split_on (CHR 0x0A) sample_text) \<and> CHR 0x0C \<notin> set ''RFC 1, RFC 1''"
    by code_simp
  note a = rfc_references_bucketed[where ln = "''[RFC2]  RFC 2''" and s = "state_after 7 sample_text"
      and rs = fresh_regexes and rawText = sample_text and fname = "''f''" and doc = ?doc]
  note b = rfc_references_bucketed[where ln = "''RFC 1, RFC 1''" and s = "state_after 2 sample_text"
      and rs = fresh_regexes and rawText = sample_text and fname = "''f''" and doc = ?doc]
  note c = rfc_references_bucketed[where ln = "CHR 0x0C # ''RFC 1''" and s = "state_after 2 sample_text"
      and rs = fresh_regexes and rawText = sample_text and fname = "''f''" and doc = ?doc]
  from a inside have a1: "nonReferenceSectionRfc (elements_after ''[RFC2]  RFC 2'' (state_after 7 sample_text))
       = nonReferenceSectionRfc (extractedElements (data (state_after 7 sample_text)))"
    and a2: "\<exists>new. referenceSectionRfc (elements_after ''[RFC2]  RFC 2'' (state_after 7 sample_text))
               = referenceSectionRfc (extractedElements (data (state_after 7 sample_text))) @ new
          \<and> appended_numbers (map ref_value (referenceSectionRfc (extractedElements (data (state_after 7 sample_text)))))
               (rfc_reference_matches (trim ''[RFC2]  RFC 2'')) (map ref_value new)
          \<and> list_all (\<lambda>e. ref_subsection e = currentSubSection (state_after 7 sample_text)) new"
    by blast+
  from b outside have b1: "referenceSectionRfc (elements_after ''RFC 1, RFC 1'' (state_after 2 sample_text))
       = referenceSectionRfc (extractedElements (data (state_after 2 sample_text)))"
    by simp
  from c feed have c1: "elements_after (CHR 0x0C # ''RFC 1'') (state_after 2 sample_text)
       = extractedElements (data (state_after 2 sample_text))"
    by blast
  from a p have d1: "distinct (nonReferenceSectionRfc (extractedElements (parsed ?doc)))"
    and d2: "\<forall>l \<in> set (split_on (CHR 0x0A) sample_text). CHR 0x0C \<notin> set l \<longrightarrow>
            set (rfc_reference_matches (trim l)) \<subseteq> rfc_numbers (extractedElements (parsed ?doc))"
    by blast+
  from d2 l have d3: "set (rfc_reference_matches (trim ''RFC 1, RFC 1'')) \<subseteq> rfc_numbers (extractedElements (parsed ?doc))"
    by blast
  from inside sub ms a1 a2[unfolded ms sub] outside b1 c1 d1 d3 show ?thesis by blast
qed

text \<open>
  Claim C8, as the claim states it, fails. In the text below the marker of the abstract,
  open after line 5, is closed by line 6, which is no section heading and not the end
  of the text; line 7 opens the abstract again, so that the document has the marker
  closed with start 7 and end 5.
\<close>

theorem reopened_marker_end_before_start:
  "\<not> closed (of_section (markers (state_after 5 reopened_text)) abstract)
   \<and> \<not> is_section_heading ''x''
   \<and> of_section (markers (state_after 6 reopened_text)) abstract = \<lparr>start = 5, endLine = 5, closed = True\<rparr>
   \<and> map_sum id (\<lambda>d. of_section (parsed_markers d) abstract) (fst (parse fresh_regexes reopened_text ''f''))
     = Inr \<lparr>start = 7, endLine = 5, closed = True\<rparr>"
  by code_simp

text \<open>
  Claim C8, amended. In the document that a parse returns, a closed section marker has
  its end at or after its start when at most one line of the text opens the section.
  A line of the loop closes a marker only with its end at the line before, and only
  when the line is a section heading and the marker is that of the current section, or
  when the marker is that of the abstract and the line, other than \<^verbatim>\<open>Abstract\<close>, starts
  with \<^verbatim>\<open>Status of\<close> or is not indented by two spaces. A marker closed after the loop is
  that of the current section, with its end at the last line.
\<close>

theorem closed_marker_end_after_start:
  "(fst (parse rs rawText fname) = Inr doc
      \<and> closed (of_section (parsed_markers doc) k)
      \<and> openings (split_on (CHR 0x0A) rawText) k \<le> 1
     \<longrightarrow> start (of_section (parsed_markers doc) k) \<le> endLine (of_section (parsed_markers doc) k))
   \<and> (\<not> closed (of_section (markers s) k)
      \<and> closed (of_section (markers (flow_state (step ln s))) k)
     \<longrightarrow> endLine (of_section (markers (flow_state (step ln s))) k) = lineIdx s
         \<and> ((is_section_heading (trim ln) \<and> currentSection s = Some k)
            \<or> (k = abstract \<and> trim ln \<noteq> ''Abstract''
                \<and> (startsWith (trim ln) ''Status of'' \<or> \<not> startsWith ln ''  ''))))
   \<and> (fst (parse rs rawText fname) = Inr doc
      \<and> \<not> closed (of_section (markers (flow_state (loop_end rs rawText))) k)
      \<and> closed (of_section (parsed_markers doc) k)
     \<longrightarrow> endLine (of_section (parsed_markers doc) k) = length (split_on (CHR 0x0A) rawText)
         \<and> currentSection (flow_state (loop_end rs rawText)) = Some k)"
proof (intro conjI impI)
  assume a: "fst (parse rs rawText fname) = Inr doc
      \<and> closed (of_section (parsed_markers doc) k)
      \<and> openings (split_on (CHR 0x0A) rawText) k \<le> 1"
  then have p: "fst (parse rs rawText fname) = Inr doc" by simp
  from parse_marker_inv[OF p, of k] a
  show "start (of_section (parsed_markers doc) k) \<le> endLine (of_section (parsed_markers doc) k)"
    by (simp add: marker_inv_def)
next
  assume a: "\<not> closed (of_section (markers s) k)
      \<and> closed (of_section (markers (flow_state (step ln s))) k)"
  then have a1: "\<not> closed (of_section (markers s) k)"
    and a2: "closed (of_section (markers (flow_state (step ln s))) k)" by simp_all
  from step_closes[OF a1 a2]
  show "endLine (of_section (markers (flow_state (step ln s))) k) = lineIdx s"
    and "(is_section_heading (trim ln) \<and> currentSection s = Some k)
            \<or> (k = abstract \<and> trim ln \<noteq> ''Abstract''
                \<and> (startsWith (trim ln) ''Status of'' \<or> \<not> startsWith ln ''  ''))"
    by simp_all
next
  assume a: "fst (parse rs rawText fname) = Inr doc
      \<and> \<not> closed (of_section (markers (flow_state (loop_end rs rawText))) k)
      \<and> closed (of_section (parsed_markers doc) k)"
  then have p: "fst (parse rs rawText fname) = Inr doc"
    and a1: "\<not> closed (of_section (markers (flow_state (loop_end rs rawText))) k)"
    and a2: "closed (of_section (parsed_markers doc) k)" by simp_all
  from parse_closes_at_end[OF p a1 a2]
  show "endLine (of_section (parsed_markers doc) k) = length (split_on (CHR 0x0A) rawText)"
    and "currentSection (flow_state (loop_end rs rawText)) = Some k"
    by simp_all
qed

theorem closed_marker_end_after_start_witness:
  "closed (of_section (parsed_markers (projr (fst (parse fresh_regexes sample_text ''f'')))) introduction)
   \<and> openings (split_on (CHR 0x0A) sample_text) introduction \<le> 1
   \<and> start (of_section (parsed_markers (projr (fst (parse fresh_regexes sample_text ''f'')))) introduction)
       \<le> endLine (of_section (parsed_markers (projr (fst (parse fresh_regexes sample_text ''f'')))) introduction)
   \<and> \<not> closed (of_section (markers (state_after 5 sample_text)) introduction)
   \<and> closed (of_section (markers (flow_state (step ''2. References'' (state_after 5 sample_text)))) introduction)
   \<and> endLine (of_section (markers (flow_state (step ''2. References'' (state_after 5 sample_text)))) introduction)
       = lineIdx (state_after 5 sample_text)
   \<and> \<not> closed (of_section (markers (flow_state (loop_end fresh_regexes sample_text))) references)
   \<and> closed (of_section (parsed_markers (projr (fst (parse fresh_regexes sample_text ''f'')))) references)
   \<and> endLine (of_section (parsed_markers (projr (fst (parse fresh_regexes sample_text ''f'')))) references)
       = length (split_on (CHR 0x0A) sample_text)
   \<and> currentSection (flow_state (loop_end fresh_regexes sample_text)) = Some references"
proof -
  let ?doc = "projr (fst (parse fresh_regexes sample_text ''f''))"
  have p: "fst (parse fresh_regexes sample_text ''f'') = Inr ?doc"
    using sample_text_parses by simp
  have once: "closed (of_section (parsed_markers ?doc) introduction)
      \<and> openings (split_on (CHR 0x0A) sample_text) introduction \<le> 1"
    by code_simp
  have heading: "\<not> closed (of_section (markers (state_after 5 sample_text)) introduction)
      \<and> closed (of_section (markers (flow_state (step ''2. References'' (state_after 5 sample_text)))) introduction)"
    by code_simp
  have last: "\<not> closed (of_section (markers (flow_state (loop_end fresh_regexes sample_text))) references)
      \<and> closed (of_section (parsed_markers ?doc) references)"
    by code_simp
  note a = closed_marker_end_after_start[where rs = fresh_regexes and rawText = sample_text and fname = "''f''"
      and doc = ?doc and k = introduction and s = "state_after 5 sample_text" and ln = "''2. References''"]
  note b = closed_marker_end_after_start[where rs = fresh_regexes and rawText = sample_text and fname = "''f''"
      and doc = ?doc and k = references and s = "state_after 5 sample_text" and ln = "''2. References''"]
  from a p once have a1: "start (of_section (parsed_markers ?doc) introduction)
       \<le> endLine (of_section (parsed_markers ?doc) introduction)"
    by blast
  from a heading have a2: "endLine (of_section (markers (flow_state (step ''2. References'' (state_after 5 sample_text)))) introduction)
       = lineIdx (state_after 5 sample_text)"
    by blast
  from b p last have b1: "endLine (of_section (parsed_markers ?doc) references) = length (split_on (CHR 0x0A) sample_text)
      \<and> currentSection (flow_state (loop_end fresh_regexes sample_text)) = Some references"
    by blast
  from once a1 heading a2 last b1 show ?thesis by blast
qed

end
